theory Spec2Isabelle
  imports Complex_Main "HOL-Library.Char_ord" "HOL-Library.List_Lexorder" "HOL-Library.AList"
begin

section \<open>Strings\<close>

text \<open>
  Python strings are modelled as \<^typ>\<open>string\<close>, a character outside ASCII being given by
  the bytes of its UTF-8 encoding. The model is exact on ASCII text: \<open>lower\<close> folds the
  letters A to Z, \<open>strip\<close> removes the white space characters of \<open>str.isspace\<close> that
  lie in the ASCII range, and \<open>str_in p s\<close> is Python's \<open>p in s\<close>. Beyond ASCII,
  \<open>lower\<close> also folds the accented capitals of Latin-1 (U+00C0 to U+00DE without the
  multiplication sign), which UTF-8 writes as the byte \<open>0xC3\<close> followed by a byte from
  \<open>0x80\<close> to \<open>0x9E\<close>: the small letter has the second byte \<open>0x20\<close> higher.
\<close>

definition lower_char :: "char \<Rightarrow> char" where
  "lower_char c =
     (case map_of (zip ''ABCDEFGHIJKLMNOPQRSTUVWXYZ'' ''abcdefghijklmnopqrstuvwxyz'') c of
        Some d \<Rightarrow> d
      | None \<Rightarrow> c)"

definition latin1_capitals :: "char list" where
  "latin1_capitals =
       [CHR 0x80, CHR 0x81, CHR 0x82, CHR 0x83, CHR 0x84, CHR 0x85, CHR 0x86, CHR 0x87,
        CHR 0x88, CHR 0x89, CHR 0x8A, CHR 0x8B, CHR 0x8C, CHR 0x8D, CHR 0x8E, CHR 0x8F,
        CHR 0x90, CHR 0x91, CHR 0x92, CHR 0x93, CHR 0x94, CHR 0x95, CHR 0x96, CHR 0x98,
        CHR 0x99, CHR 0x9A, CHR 0x9B, CHR 0x9C, CHR 0x9D, CHR 0x9E]"

definition latin1_smalls :: "char list" where
  "latin1_smalls =
       [CHR 0xA0, CHR 0xA1, CHR 0xA2, CHR 0xA3, CHR 0xA4, CHR 0xA5, CHR 0xA6, CHR 0xA7,
        CHR 0xA8, CHR 0xA9, CHR 0xAA, CHR 0xAB, CHR 0xAC, CHR 0xAD, CHR 0xAE, CHR 0xAF,
        CHR 0xB0, CHR 0xB1, CHR 0xB2, CHR 0xB3, CHR 0xB4, CHR 0xB5, CHR 0xB6, CHR 0xB8,
        CHR 0xB9, CHR 0xBA, CHR 0xBB, CHR 0xBC, CHR 0xBD, CHR 0xBE]"

definition lower_latin1 :: "char \<Rightarrow> char" where
  "lower_latin1 c =
     (case map_of (zip latin1_capitals latin1_smalls) c of
        Some d \<Rightarrow> d
      | None \<Rightarrow> lower_char c)"

primrec lower_from :: "char \<Rightarrow> string \<Rightarrow> string" where
  "lower_from prev [] = []"
| "lower_from prev (c # s) =
     (if prev = CHR 0xC3 then lower_latin1 c else lower_char c) # lower_from c s"

definition lower :: "string \<Rightarrow> string" where
  "lower s = lower_from (CHR 0x00) s"

definition is_space :: "char \<Rightarrow> bool" where
  "is_space c = (c \<in> set [CHR 0x09, CHR 0x0A, CHR 0x0B, CHR 0x0C, CHR 0x0D,
                            CHR 0x1C, CHR 0x1D, CHR 0x1E, CHR 0x1F, CHR 0x20])"

definition strip :: "string \<Rightarrow> string" where
  "strip s = rev (dropWhile is_space (rev (dropWhile is_space s)))"

fun starts_with :: "string \<Rightarrow> string \<Rightarrow> bool" where
  "starts_with [] s = True"
| "starts_with (p # ps) [] = False"
| "starts_with (p # ps) (c # cs) = (p = c \<and> starts_with ps cs)"

fun str_in :: "string \<Rightarrow> string \<Rightarrow> bool" where
  "str_in p [] = (p = [])"
| "str_in p (c # cs) = (starts_with p (c # cs) \<or> str_in p cs)"

section \<open>kpop\_spotify\_cleaner: validation, quarantine marking, album refresh\<close>

text \<open>
  One answer of the provider to \<open>GET /v1/artists/{id}\<close>. \<open>RequestFailed\<close> stands for
  any exception raised inside the \<open>try\<close> block (the request itself or the decoding of the
  body). The \<open>Retry-After\<close> header is absent, a number, or text that \<open>int()\<close> rejects.
\<close>

datatype header = Absent | Numeric int | Malformed

datatype http_response =
    Response (status_code: int) (retry_after: header) (genres: "string list")
  | RequestFailed

definition kpop_genres :: "string list" where
  "kpop_genres = [''k-pop'', ''korean pop'', ''korean'', ''korean hip hop'', ''korean r&b'']"

definition has_kpop_genre :: "string list \<Rightarrow> bool" where
  "has_kpop_genre gs = (\<exists>genre \<in> set (map lower gs). \<exists>k \<in> set kpop_genres. str_in k genre)"

definition max_retries :: nat where
  "max_retries = 3"

definition backoff :: "nat \<Rightarrow> int" where
  "backoff retry_count = min (2 ^ retry_count) 60"

text \<open>
  The retry loop of \<open>validate_kpop_artist_by_id\<close>. \<open>env n\<close> is the provider's answer to
  the request made when \<open>retry_count = n\<close> (every iteration that does not return
  increments the counter, so each index is asked once). The second component of the result
  is the list of durations handed to \<open>time.sleep\<close>, in order. A negative wait makes
  \<open>time.sleep\<close> raise, which the \<open>except\<close> clause handles like any other exception.
\<close>

function validate_loop :: "(nat \<Rightarrow> http_response) \<Rightarrow> nat \<Rightarrow> int list \<Rightarrow> bool \<times> int list" where
  "validate_loop env retry_count slept =
     (if retry_count < max_retries then
        (case env retry_count of
           RequestFailed \<Rightarrow>
             validate_loop env (retry_count + 1) (slept @ [backoff (retry_count + 1)])
         | Response code hdr gs \<Rightarrow>
             if code = 200 then (has_kpop_genre gs, slept)
             else if code = 429 then
               (case hdr of
                  Malformed \<Rightarrow>
                    validate_loop env (retry_count + 1) (slept @ [backoff (retry_count + 1)])
                | _ \<Rightarrow>
                    let wait_time = (case hdr of Numeric n \<Rightarrow> n | _ \<Rightarrow> 60) in
                    if wait_time > 600 then (False, slept)
                    else if wait_time < 0 then
                      validate_loop env (retry_count + 1) (slept @ [backoff (retry_count + 1)])
                    else validate_loop env (retry_count + 1) (slept @ [wait_time]))
             else if code = 404 then (False, slept)
             else validate_loop env (retry_count + 1) (slept @ [backoff (retry_count + 1)]))
      else (False, slept))"
  by pat_completeness auto
termination
  by (relation "measure (\<lambda>(env, retry_count, slept). max_retries - retry_count)") auto

definition validate_kpop_artist_by_id :: "bool \<Rightarrow> (nat \<Rightarrow> http_response) \<Rightarrow> bool \<times> int list" where
  "validate_kpop_artist_by_id token_ok env =
     (if \<not> token_ok then (False, []) else validate_loop env 0 [])"

text \<open>
  A group document of the \<open>kpopgroups\<close> collection, with the fields the cleaner reads and
  writes. An optional field is \<open>None\<close> while the document does not have it. Times are
  seconds.
\<close>

record group =
  group_id :: nat
  group_name :: string
  spotifyId :: "string option"
  social_spotify :: string
  isActive :: bool
  rateLimited :: "bool option"
  lastRateLimitedAt :: "int option"
  retryAfter :: "int option"
  rateLimitReason :: "string option"
  invalidReason :: "string option"
  invalidatedAt :: "int option"
  lastValidated :: "int option"
  group_updatedAt :: "int option"

definition mark_group_as_invalid :: "int \<Rightarrow> string \<Rightarrow> group \<Rightarrow> group" where
  "mark_group_as_invalid now reason g =
     (if str_in ''429'' reason \<or> str_in ''rate'' (lower reason) \<or> str_in ''Rate limiting'' reason
      then g\<lparr>isActive := True, rateLimited := Some True, lastRateLimitedAt := Some now,
              retryAfter := Some (now + 86400), rateLimitReason := Some reason,
              group_updatedAt := Some now\<rparr>
      else g\<lparr>isActive := False, invalidReason := Some reason, invalidatedAt := Some now,
              group_updatedAt := Some now\<rparr>)"

text \<open>
  \<open>extract_spotify_id_from_group\<close>: the \<open>spotifyId\<close> field when it has 22 characters,
  else the last piece of \<open>url.split('/artist/')\<close>, up to the first \<open>?\<close>.
  \<open>last_piece p s s\<close> is the last element of \<open>s.split(p)\<close>: the separators are found
  from left to right, without overlap.
\<close>

function last_piece :: "string \<Rightarrow> string \<Rightarrow> string \<Rightarrow> string" where
  "last_piece p [] piece = piece"
| "last_piece p (c # cs) piece =
     (if p \<noteq> [] \<and> starts_with p (c # cs)
      then last_piece p (drop (length p) (c # cs)) (drop (length p) (c # cs))
      else last_piece p cs piece)"
  by pat_completeness auto
termination
  by (relation "measure (\<lambda>(p, s, piece). length s)") auto

definition extract_spotify_id_from_group :: "group \<Rightarrow> string option" where
  "extract_spotify_id_from_group g =
     (case spotifyId g of
        Some sid \<Rightarrow> if sid \<noteq> [] \<and> length sid = 22 then Some sid else
          (if social_spotify g \<noteq> [] \<and> str_in ''/artist/'' (social_spotify g) then
             (let sid' = takeWhile (\<lambda>c. c \<noteq> CHR ''?'') (last_piece ''/artist/'' (social_spotify g) (social_spotify g))
              in if length sid' = 22 then Some sid' else None)
           else None)
      | None \<Rightarrow>
          (if social_spotify g \<noteq> [] \<and> str_in ''/artist/'' (social_spotify g) then
             (let sid' = takeWhile (\<lambda>c. c \<noteq> CHR ''?'') (last_piece ''/artist/'' (social_spotify g) (social_spotify g))
              in if length sid' = 22 then Some sid' else None)
           else None))"

section \<open>Releases as the provider sends them\<close>

text \<open>
  A release (album object) of the provider, with the keys the two scripts read. A key read
  with \<open>get(key, '')\<close> or \<open>get(key, 0)\<close> is a plain value (the default when the key is
  missing); a key whose absence matters is an option. Cover images and links, which no
  decision reads, are left out.
\<close>

record credited =
  artist_id :: "string option"
  artist_name :: string

record album =
  album_id :: "string option"
  album_name :: string
  release_date :: "string option"
  album_type :: "string option"
  album_group :: string
  total_tracks :: int
  album_artists :: "credited list"
  discovery_method :: "string option"

text \<open>
  One answer of the provider to a paginated listing or search request: status, the
  \<open>Retry-After\<close> header, the items and the \<open>total\<close> of a search.
\<close>

datatype page =
    Page (page_status: int) (page_retry_after: header) (page_items: "album list") (page_total: int)
  | PageFailed

definition page_limit :: nat where
  "page_limit = 50"

subsection \<open>Release filters of the cleaner\<close>

text \<open>
  The patterns \<open>^\s*X\s*$\<close> hold exactly when the name without surrounding white space is
  \<open>X\<close>; the others are plain substrings. The fifth substring pattern contains a
  non-ASCII letter, given here by its UTF-8 bytes.
\<close>

definition cleaner_suspect_exact :: "string list" where
  "cleaner_suspect_exact = [''(null)'', ''null'', ''undefined'', ''test'']"

definition cleaner_suspect_substrings :: "string list" where
  "cleaner_suspect_substrings =
     [''various artists'', ''hits ann'' @ [CHR 0xC3, CHR 0xA9] @ ''es'', ''best of'']"

definition is_valid_spotify_release :: "album \<Rightarrow> bool" where
  "is_valid_spotify_release release =
     (if total_tracks release < 1 then False
      else if album_name release = [] \<or> length (strip (album_name release)) < 1 then False
      else if album_type release = Some ''compilation'' \<and> str_in ''various'' (lower (album_name release))
        then False
      else if strip (lower (album_name release)) \<in> set cleaner_suspect_exact then False
      else if (\<exists>p \<in> set cleaner_suspect_substrings. str_in p (lower (album_name release)))
        then False
      else True)"

definition verify_album_belongs_to_artist :: "album \<Rightarrow> string \<Rightarrow> bool" where
  "verify_album_belongs_to_artist a expected_spotify_id =
     (\<exists>c \<in> set (album_artists a). (case artist_id c of None \<Rightarrow> [] | Some i \<Rightarrow> i) = expected_spotify_id)"

subsection \<open>The two listings\<close>

text \<open>
  The provider's answers are a finite script of pages, one per request; past the script
  the provider answers with an empty page (its catalogue is finite). \<open>None\<close> is an
  exception inside the loop, which makes the function return the empty list. What is
  proved of the cleaner below is about the records a refresh keeps and stores; a provider
  that would send full pages without end is outside this script.
\<close>

fun official_loop :: "page list \<Rightarrow> album list \<Rightarrow> album list option" where
  "official_loop [] all_albums = Some all_albums"
| "official_loop (PageFailed # ps) all_albums = None"
| "official_loop (Page code hdr albums tot # ps) all_albums =
     (if code = 200 then
        (if albums = [] then Some all_albums
         else let all_albums' = all_albums @ filter is_valid_spotify_release albums in
              if length albums < page_limit then Some all_albums'
              else official_loop ps all_albums')
      else Some all_albums)"

definition get_official_albums :: "page list \<Rightarrow> album list" where
  "get_official_albums pages = (case official_loop pages [] of None \<Rightarrow> [] | Some r \<Rightarrow> r)"

definition max_results :: nat where
  "max_results = 200"

fun search_loop :: "string \<Rightarrow> page list \<Rightarrow> nat \<Rightarrow> album list \<Rightarrow> album list option" where
  "search_loop sid [] offset all_albums = Some all_albums"
| "search_loop sid (PageFailed # ps) offset all_albums =
     (if length all_albums < max_results then None else Some all_albums)"
| "search_loop sid (Page code hdr albums tot # ps) offset all_albums =
     (if length all_albums < max_results then
        (if code = 200 then
           (if albums = [] then Some all_albums
            else let valid_albums =
                       filter (\<lambda>a. is_valid_spotify_release a \<and> verify_album_belongs_to_artist a sid) albums;
                     all_albums' = all_albums @ valid_albums in
                 if length valid_albums = 0 \<and> offset > 100 then Some all_albums'
                 else if int (offset + page_limit) \<ge> tot \<or> length albums < page_limit
                   then Some all_albums'
                 else search_loop sid ps (offset + page_limit) all_albums')
         else Some all_albums)
      else Some all_albums)"

definition get_search_albums :: "string \<Rightarrow> page list \<Rightarrow> album list" where
  "get_search_albums sid pages = (case search_loop sid pages 0 [] of None \<Rightarrow> [] | Some r \<Rightarrow> r)"

subsection \<open>Merge and deduplication\<close>

text \<open>
  \<open>unique_albums\<close> is a Python dict: an association list in insertion order, where
  assigning to a key that is present replaces the value in place and assigning to a new
  key appends (\<^const>\<open>AList.update\<close>). An id is used only when it is truthy.
\<close>

definition truthy_id :: "album \<Rightarrow> string option" where
  "truthy_id a = (case album_id a of None \<Rightarrow> None | Some i \<Rightarrow> if i = [] then None else Some i)"

definition add_official :: "album \<Rightarrow> (string \<times> album) list \<Rightarrow> (string \<times> album) list" where
  "add_official a d =
     (case truthy_id a of
        None \<Rightarrow> d
      | Some i \<Rightarrow> AList.update i (a\<lparr>discovery_method := Some ''official''\<rparr>) d)"

definition add_search :: "album \<Rightarrow> (string \<times> album) list \<Rightarrow> (string \<times> album) list" where
  "add_search a d =
     (case truthy_id a of
        None \<Rightarrow> d
      | Some i \<Rightarrow>
          if i \<notin> set (map fst d) then AList.update i (a\<lparr>discovery_method := Some ''search''\<rparr>) d
          else d)"

definition unique_albums :: "album list \<Rightarrow> album list \<Rightarrow> (string \<times> album) list" where
  "unique_albums official_albums search_albums =
     fold add_search search_albums (fold add_official official_albums [])"

definition date_key :: "album \<Rightarrow> string" where
  "date_key a = (case release_date a of None \<Rightarrow> [] | Some d \<Rightarrow> d)"

text \<open>
  \<open>list.sort(key, reverse=True)\<close> is a stable sort in descending key order: elements
  with equal keys keep their order.
\<close>

definition sort_reverse :: "('a \<Rightarrow> 'k::linorder) \<Rightarrow> 'a list \<Rightarrow> 'a list" where
  "sort_reverse f xs = rev (sort_key f (rev xs))"

definition merge_albums :: "album list \<Rightarrow> album list \<Rightarrow> album list" where
  "merge_albums official_albums search_albums =
     sort_reverse date_key (map snd (unique_albums official_albums search_albums))"

definition get_albums_by_artist_id :: "bool \<Rightarrow> page list \<Rightarrow> page list \<Rightarrow> string \<Rightarrow> album list" where
  "get_albums_by_artist_id token_ok official_pages search_pages sid =
     (if \<not> token_ok then []
      else merge_albums (get_official_albums official_pages) (get_search_albums sid search_pages))"

subsection \<open>Stored album documents of the cleaner and the refresh of one group\<close>

record cleaner_album_doc =
  ca_name :: string
  ca_artistId :: nat
  ca_artistName :: string
  ca_spotifyId :: string
  ca_releaseDate :: string
  ca_albumType :: string
  ca_totalTracks :: int
  ca_discoveryMethod :: string
  ca_createdAt :: int
  ca_updatedAt :: int

definition cleaner_create_album_document :: "int \<Rightarrow> album \<Rightarrow> group \<Rightarrow> cleaner_album_doc" where
  "cleaner_create_album_document now a g =
     \<lparr>ca_name = strip (album_name a),
      ca_artistId = group_id g,
      ca_artistName = group_name g,
      ca_spotifyId = (case album_id a of None \<Rightarrow> [] | Some i \<Rightarrow> i),
      ca_releaseDate = date_key a,
      ca_albumType = (case album_type a of None \<Rightarrow> ''album'' | Some t \<Rightarrow> t),
      ca_totalTracks = total_tracks a,
      ca_discoveryMethod = (case discovery_method a of None \<Rightarrow> ''unknown'' | Some m \<Rightarrow> m),
      ca_createdAt = now,
      ca_updatedAt = now\<rparr>"

text \<open>
  \<open>clean_albums_for_group\<close> on the group's document and the album collection; the third
  component of the result is the list of sleeps of the validation.
\<close>

definition clean_albums_for_group ::
  "int \<Rightarrow> bool \<Rightarrow> (nat \<Rightarrow> http_response) \<Rightarrow> bool \<Rightarrow> page list \<Rightarrow> page list \<Rightarrow>
   group \<times> cleaner_album_doc list \<Rightarrow> group \<times> cleaner_album_doc list \<times> int list" where
  "clean_albums_for_group now token_ok env token_ok2 official_pages search_pages st =
     (case st of (g, stored) \<Rightarrow>
        (case extract_spotify_id_from_group g of
           None \<Rightarrow> (mark_group_as_invalid now ''Pas de Spotify ID'' g, stored, [])
         | Some sid \<Rightarrow>
             (case validate_kpop_artist_by_id token_ok env of (valid, slept) \<Rightarrow>
                if \<not> valid then
                  (mark_group_as_invalid now ''Pas K-pop ou artiste inexistant'' g, stored, slept)
                else
                  let stored' = filter (\<lambda>d. ca_artistId d \<noteq> group_id g) stored;
                      g' = g\<lparr>spotifyId := Some sid, group_updatedAt := Some now,
                              isActive := True, lastValidated := Some now\<rparr>;
                      albums = get_albums_by_artist_id token_ok2 official_pages search_pages sid
                  in (g', stored' @ map (\<lambda>a. cleaner_create_album_document now a g) albums, slept))))"

section \<open>hybrid\_kpop\_collector: the group classifier\<close>

subsection \<open>Regular expression searches\<close>

text \<open>
  \<open>scan m None s\<close> is \<open>re.search\<close>: the matcher \<open>m\<close> is tried at every position of \<open>s\<close>,
  from the left, and is given the character before the position (\<open>None\<close> at the start)
  and the rest of the string. \<open>\b\<close> holds between a word character and a character
  that is not one, the two ends of the string counting as the latter.
\<close>

fun scan :: "(char option \<Rightarrow> string \<Rightarrow> bool) \<Rightarrow> char option \<Rightarrow> string \<Rightarrow> bool" where
  "scan m prev [] = m prev []"
| "scan m prev (c # cs) = (m prev (c # cs) \<or> scan m (Some c) cs)"

definition is_digit :: "char \<Rightarrow> bool" where
  "is_digit c = (c \<in> set ''0123456789'')"

definition is_upper :: "char \<Rightarrow> bool" where
  "is_upper c = (c \<in> set ''ABCDEFGHIJKLMNOPQRSTUVWXYZ'')"

definition is_word_char :: "char \<Rightarrow> bool" where
  "is_word_char c =
     (c \<in> set ''abcdefghijklmnopqrstuvwxyzABCDEFGHIJKLMNOPQRSTUVWXYZ0123456789_'')"

definition is_word :: "char option \<Rightarrow> bool" where
  "is_word x = (case x of None \<Rightarrow> False | Some c \<Rightarrow> is_word_char c)"

definition head_of :: "string \<Rightarrow> char option" where
  "head_of s = (case s of [] \<Rightarrow> None | c # cs \<Rightarrow> Some c)"

definition boundary :: "char option \<Rightarrow> string \<Rightarrow> bool" where
  "boundary prev s = (is_word prev \<noteq> is_word (head_of s))"

text \<open>A literal \<open>w\<close> at this position, followed by \<open>\b\<close>.\<close>

definition word_then_boundary :: "string \<Rightarrow> string \<Rightarrow> bool" where
  "word_then_boundary w s =
     (starts_with w s \<and> w \<noteq> [] \<and> boundary (Some (last w)) (drop (length w) s))"

text \<open>\<open>\b(girl|boy)\b\<close>\<close>

definition girl_boy_at :: "char option \<Rightarrow> string \<Rightarrow> bool" where
  "girl_boy_at prev s =
     (boundary prev s \<and> (\<exists>w \<in> set [''girl'', ''boy'']. word_then_boundary w s))"

text \<open>\<open>\b\d+(kids?|teens?)\b\<close>: the digits of \<open>\d+\<close> are followed by a letter, so the run is whole.\<close>

definition digits_kids_at :: "char option \<Rightarrow> string \<Rightarrow> bool" where
  "digits_kids_at prev s =
     (boundary prev s \<and> takeWhile is_digit s \<noteq> [] \<and>
      (\<exists>w \<in> set [''kid'', ''kids'', ''teen'', ''teens'']. word_then_boundary w (dropWhile is_digit s)))"

text \<open>\<open>^[A-Z]{2,8}$\<close>, where \<open>$\<close> also holds before a final newline.\<close>

definition upper_2_8 :: "string \<Rightarrow> bool" where
  "upper_2_8 s =
     (let t = (if s \<noteq> [] \<and> last s = CHR 0x0A then butlast s else s) in
      2 \<le> length t \<and> length t \<le> 8 \<and> list_all is_upper t)"

text \<open>\<open>[xz]{2,}\<close>\<close>

definition xz_at :: "char option \<Rightarrow> string \<Rightarrow> bool" where
  "xz_at prev s =
     (case s of c1 # c2 # cs \<Rightarrow> c1 \<in> set ''xz'' \<and> c2 \<in> set ''xz'' | _ \<Rightarrow> False)"

subsection \<open>The classifier\<close>

record artist =
  spotify_artist_id :: "string option"
  name :: string
  artist_genres :: "string list"
  popularity :: int

definition kpop_keywords :: "string list" where
  "kpop_keywords =
     [''twice'', ''blackpink'', ''bts'', ''stray'', ''ateez'', ''itzy'', ''aespa'',
      ''ive'', ''newjeans'', ''sserafim'', ''gidle'', ''nmixx'', ''kep1er'',
      ''seventeen'', ''nct'', ''enhypen'', ''txt'', ''treasure'', ''the boyz'']"

definition looks_like_kpop_name :: "string \<Rightarrow> bool" where
  "looks_like_kpop_name nm =
     (let name_lower = lower nm in
      if (\<exists>keyword \<in> set kpop_keywords. str_in keyword name_lower) then True
      else if scan girl_boy_at None name_lower \<or> scan digits_kids_at None name_lower \<or>
              upper_2_8 name_lower \<or> scan xz_at None name_lower then True
      else False)"

definition label_keywords :: "string list" where
  "label_keywords =
     [''entertainment'', ''records'', ''music'', ''label'', ''company'',
      ''corporation'', ''inc'', ''ltd'', ''production'', ''official'']"

text \<open>\<open>^\d+|soundtrack|ost|various|compilation|vol\.|pt\.|part\<close>\<close>

definition suspect_words :: "string list" where
  "suspect_words = [''soundtrack'', ''ost'', ''various'', ''compilation'', ''vol.'', ''pt.'', ''part'']"

definition suspect_pattern :: "string \<Rightarrow> bool" where
  "suspect_pattern s =
     ((case s of [] \<Rightarrow> False | c # cs \<Rightarrow> is_digit c) \<or> (\<exists>w \<in> set suspect_words. str_in w s))"

definition has_korean_genre :: "string list \<Rightarrow> bool" where
  "has_korean_genre gs =
     (\<exists>genre \<in> set (map lower gs). str_in ''k-pop'' genre \<or> str_in ''korean'' genre)"

definition is_valid_kpop_spotify_artist :: "artist \<Rightarrow> bool" where
  "is_valid_kpop_spotify_artist a =
     (let high_popularity_kpop = (popularity a > 30 \<and> looks_like_kpop_name (name a)) in
      if \<not> (has_korean_genre (artist_genres a) \<or> high_popularity_kpop) then False
      else if name a = [] \<or> length (strip (name a)) < 2 then False
      else if popularity a < 5 then False
      else if (\<exists>keyword \<in> set label_keywords. str_in keyword (lower (name a))) then False
      else if suspect_pattern (lower (name a)) then False
      else True)"

text \<open>
  The acceptance rule in the words of the specification. Its name heuristic is the keyword
  list and the structural patterns, among them 2 to 8 capital letters, which is a property
  of the name as it is written; the suspicious patterns are the ones it lists, and the
  length is that of the name.
\<close>

definition other_name_patterns :: "string \<Rightarrow> bool" where
  "other_name_patterns nm =
     ((\<exists>keyword \<in> set kpop_keywords. str_in keyword (lower nm)) \<or>
      scan girl_boy_at None (lower nm) \<or> scan digits_kids_at None (lower nm) \<or>
      scan xz_at None (lower nm))"

definition spec_name_heuristic :: "string \<Rightarrow> bool" where
  "spec_name_heuristic nm = (other_name_patterns nm \<or> upper_2_8 nm)"

definition spec_suspect_words :: "string list" where
  "spec_suspect_words = [''soundtrack'', ''various'', ''vol.'', ''pt.'', ''part'']"

definition spec_group_accept :: "artist \<Rightarrow> bool" where
  "spec_group_accept a =
     (name a \<noteq> [] \<and> length (name a) \<ge> 2 \<and>
      (has_korean_genre (artist_genres a) \<or> (popularity a > 30 \<and> spec_name_heuristic (name a))) \<and>
      popularity a \<ge> 5 \<and>
      \<not> (\<exists>keyword \<in> set label_keywords. str_in keyword (lower (name a))) \<and>
      \<not> ((case lower (name a) of [] \<Rightarrow> False | c # cs \<Rightarrow> is_digit c) \<or>
         (\<exists>w \<in> set spec_suspect_words. str_in w (lower (name a)))))"

section \<open>hybrid\_kpop\_collector: discovery\<close>

text \<open>
  One answer of the provider to an artist search. The caches \<open>processed_spotify_ids\<close> and
  \<open>existing_group_names\<close> are sets of strings; the first one is updated while the pages
  are read, and keeps its additions when an exception ends the search.
  A discovered artist is kept with the value of \<open>artist['id']\<close> that was read for it;
  reading a missing id raises \<open>KeyError\<close>, the \<open>None\<close> below.
\<close>

datatype artist_page = ArtistPage int "artist list" | ArtistPageFailed

fun page_new_artists ::
  "string set \<Rightarrow> artist list \<Rightarrow> string set \<Rightarrow> (string \<times> artist) list \<Rightarrow>
   (string \<times> artist) list option \<times> string set" where
  "page_new_artists names [] processed new_kpop_artists = (Some new_kpop_artists, processed)"
| "page_new_artists names (a # as) processed new_kpop_artists =
     (if is_valid_kpop_spotify_artist a then
        (case spotify_artist_id a of
           None \<Rightarrow> (None, processed)
         | Some i \<Rightarrow>
             if i \<notin> processed \<and> strip (lower (name a)) \<notin> names
             then page_new_artists names as (insert i processed) (new_kpop_artists @ [(i, a)])
             else page_new_artists names as processed new_kpop_artists)
      else page_new_artists names as processed new_kpop_artists)"

definition search_window :: nat where
  "search_window = 1000"

fun discovery_loop ::
  "string set \<Rightarrow> artist_page list \<Rightarrow> nat \<Rightarrow> string set \<Rightarrow> (string \<times> artist) list \<Rightarrow>
   (string \<times> artist) list option \<times> string set" where
  "discovery_loop names [] offset processed all_artists = (Some all_artists, processed)"
| "discovery_loop names (ArtistPageFailed # ps) offset processed all_artists =
     (if offset < search_window then (None, processed) else (Some all_artists, processed))"
| "discovery_loop names (ArtistPage code artists # ps) offset processed all_artists =
     (if offset < search_window then
        (if code = 200 then
           (if artists = [] then (Some all_artists, processed)
            else
              (case page_new_artists names artists processed [] of
                 (None, processed') \<Rightarrow> (None, processed')
               | (Some new_kpop_artists, processed') \<Rightarrow>
                   if length artists < page_limit
                   then (Some (all_artists @ new_kpop_artists), processed')
                   else discovery_loop names ps (offset + page_limit) processed'
                          (all_artists @ new_kpop_artists)))
         else (Some all_artists, processed))
      else (Some all_artists, processed))"

definition search_kpop_artists_discovery ::
  "string set \<Rightarrow> bool \<times> artist_page list \<Rightarrow> string set \<Rightarrow> (string \<times> artist) list \<times> string set" where
  "search_kpop_artists_discovery names answer processed =
     (case answer of (token_ok, pages) \<Rightarrow>
        if \<not> token_ok then ([], processed)
        else (case discovery_loop names pages 0 processed [] of
                (None, processed') \<Rightarrow> ([], processed')
              | (Some all_artists, processed') \<Rightarrow> (all_artists, processed')))"

definition search_queries :: "string list" where
  "search_queries =
     [''genre:'' @ [CHR 0x22] @ ''k-pop'' @ [CHR 0x22],
      ''genre:'' @ [CHR 0x22] @ ''korean pop'' @ [CHR 0x22],
      ''kpop'', ''k-pop'']"

text \<open>
  \<open>env query\<close> is what the provider answers to the pages of \<open>query\<close> (and whether the
  token could be refreshed before). The loop over the queries threads the cache.
\<close>

fun discover_queries ::
  "string set \<Rightarrow> (string \<Rightarrow> bool \<times> artist_page list) \<Rightarrow> string list \<Rightarrow> string set \<Rightarrow>
   (string \<times> artist) list \<Rightarrow> (string \<times> artist) list \<times> string set" where
  "discover_queries names env [] processed all_discovered = (all_discovered, processed)"
| "discover_queries names env (query # qs) processed all_discovered =
     (case search_kpop_artists_discovery names (env query) processed of
        (artists, processed') \<Rightarrow>
          discover_queries names env qs processed' (all_discovered @ artists))"

definition add_unique :: "string \<times> artist \<Rightarrow> (string \<times> artist) list \<Rightarrow> (string \<times> artist) list" where
  "add_unique ia d = (if fst ia \<notin> set (map fst d) then d @ [ia] else d)"

definition discover_new_kpop_artists ::
  "string set \<Rightarrow> (string \<Rightarrow> bool \<times> artist_page list) \<Rightarrow> string set \<Rightarrow> artist list \<times> string set" where
  "discover_new_kpop_artists names env processed =
     (case discover_queries names env search_queries processed [] of
        (all_discovered, processed') \<Rightarrow>
          (sort_reverse popularity (map snd (fold add_unique all_discovered [])), processed'))"

section \<open>hybrid\_kpop\_collector: releases\<close>

definition is_album_by_artist :: "album \<Rightarrow> string \<Rightarrow> bool" where
  "is_album_by_artist a target_artist =
     (let target_lower = strip (lower target_artist) in
      \<exists>c \<in> set (album_artists a).
        (let nm = strip (lower (artist_name c)) in
         nm = target_lower \<or> str_in target_lower nm \<or> str_in nm target_lower))"

definition is_primary_artist_album :: "album \<Rightarrow> string \<Rightarrow> bool" where
  "is_primary_artist_album a target_artist_id =
     (case album_artists a of
        [] \<Rightarrow> False
      | primary_artist # rest \<Rightarrow> artist_id primary_artist = Some target_artist_id)"

text \<open>
  The suspect patterns of \<open>is_valid_release_simple\<close>. \<open>karaoke\s+version\<close> and
  \<open>soundtrack.*pt\.\<close> are matchers for \<^const>\<open>scan\<close>; the dot does not match a newline.
\<close>

definition karaoke_version_at :: "char option \<Rightarrow> string \<Rightarrow> bool" where
  "karaoke_version_at prev s =
     (starts_with ''karaoke'' s \<and>
      (let rest = drop 7 s in
       takeWhile is_space rest \<noteq> [] \<and> starts_with ''version'' (dropWhile is_space rest)))"

definition soundtrack_pt_at :: "char option \<Rightarrow> string \<Rightarrow> bool" where
  "soundtrack_pt_at prev s =
     (starts_with ''soundtrack'' s \<and>
      str_in ''pt.'' (takeWhile (\<lambda>c. c \<noteq> CHR 0x0A) (drop 10 s)))"

definition original_soundtrack_pt_at :: "char option \<Rightarrow> string \<Rightarrow> bool" where
  "original_soundtrack_pt_at prev s =
     (starts_with ''original'' s \<and>
      scan soundtrack_pt_at None (takeWhile (\<lambda>c. c \<noteq> CHR 0x0A) (drop 8 s)))"

definition is_valid_release_simple :: "album \<Rightarrow> bool" where
  "is_valid_release_simple release =
     (if total_tracks release < 4 then False
      else if album_name release = [] \<or> length (strip (album_name release)) < 1 then False
      else if album_group release \<in> set [''compilation'', ''appears_on''] then False
      else if strip (lower (album_name release)) \<in> set [''(null)'', ''null'', ''undefined''] then False
      else if str_in ''(karaoke)'' (lower (album_name release)) then False
      else if scan karaoke_version_at None (lower (album_name release)) \<or>
              scan soundtrack_pt_at None (lower (album_name release)) \<or>
              scan original_soundtrack_pt_at None (lower (album_name release)) then False
      else True)"

text \<open>
  \<open>search_albums_by_artist\<close> (search by name) calls \<open>self.is_valid_spotify_album_only\<close>,
  a method the class does not define: as soon as \<open>is_album_by_artist\<close> holds for an item,
  the call raises \<open>AttributeError\<close>, and the handler of the function returns the empty
  list.
\<close>

fun name_search_loop :: "string \<Rightarrow> page list \<Rightarrow> nat \<Rightarrow> album list \<Rightarrow> album list option" where
  "name_search_loop nm [] offset all_albums = Some all_albums"
| "name_search_loop nm (PageFailed # ps) offset all_albums =
     (if offset < search_window then None else Some all_albums)"
| "name_search_loop nm (Page code hdr albums tot # ps) offset all_albums =
     (if offset < search_window then
        (if code = 200 then
           (if albums = [] then Some all_albums
            else if (\<exists>a \<in> set albums. is_album_by_artist a nm) then None
            else if length albums < page_limit then Some all_albums
            else name_search_loop nm ps (offset + page_limit) all_albums)
         else Some all_albums)
      else Some all_albums)"

definition search_albums_by_artist :: "bool \<Rightarrow> page list \<Rightarrow> string \<Rightarrow> album list" where
  "search_albums_by_artist token_ok pages nm =
     (if \<not> token_ok then []
      else (case name_search_loop nm pages 0 [] of None \<Rightarrow> [] | Some r \<Rightarrow> r))"

text \<open>
  \<open>search_albums_by_artist_id\<close>: the listing of one artist, a \<open>while True\<close> loop. One
  iteration sends a request and, on the answer, leaves the loop (\<open>Break\<close>), goes round
  again (\<open>Continue\<close>: to the next page after a full page, to the same page after a rate
  limit of at most 60 seconds, slept through), or raises (\<open>Raise\<close>: the request or the
  decoding of the body fails, the header is not a number, or the wait is negative and
  \<open>time.sleep\<close> raises).
\<close>

datatype iteration = Break "album list" | Continue "album list" | Raise

definition listing_iteration :: "string \<Rightarrow> page \<Rightarrow> album list \<Rightarrow> iteration" where
  "listing_iteration aid answer all_albums =
     (case answer of
        PageFailed \<Rightarrow> Raise
      | Page code hdr albums tot \<Rightarrow>
          if code = 200 then
            (if albums = [] then Break all_albums
             else let all_albums' = all_albums @
                        filter (\<lambda>a. is_primary_artist_album a aid \<and> is_valid_release_simple a) albums in
                  if length albums < page_limit then Break all_albums'
                  else Continue all_albums')
          else if code = 429 then
            (case hdr of
               Malformed \<Rightarrow> Raise
             | _ \<Rightarrow>
                 let retry_after = (case hdr of Numeric k \<Rightarrow> k | _ \<Rightarrow> 60) in
                 if retry_after \<le> 60 then
                   (if retry_after < 0 then Raise else Continue all_albums)
                 else Break all_albums)
          else Break all_albums)"

text \<open>
  The answers of the provider to the requests of one listing form a sequence without end:
  \<open>api n\<close> is the answer to request number \<open>n\<close>. Nothing in the code bounds the number of
  iterations, so the loop is a partial function: \<open>None\<close> says that it never returns. An
  exception ends the loop in the handler of the function, which returns the empty list.
\<close>

partial_function (option) id_listing_loop ::
  "string \<Rightarrow> (nat \<Rightarrow> page) \<Rightarrow> nat \<Rightarrow> album list \<Rightarrow> album list option" where
  "id_listing_loop aid api n all_albums =
     (case listing_iteration aid (api n) all_albums of
        Break r \<Rightarrow> Some r
      | Raise \<Rightarrow> Some []
      | Continue all_albums' \<Rightarrow> id_listing_loop aid api (n + 1) all_albums')"

definition search_albums_by_artist_id :: "bool \<Rightarrow> (nat \<Rightarrow> page) \<Rightarrow> string \<Rightarrow> album list option" where
  "search_albums_by_artist_id token_ok api aid =
     (if \<not> token_ok then Some [] else id_listing_loop aid api 0 [])"

subsection \<open>Album documents and the two upserts\<close>

text \<open>
  A collection is a list of documents in natural order, each with its \<open>_id\<close>. The
  group document has a name, a provider id and the two time stamps; \<open>hg_payload\<close> stands
  for all its other fields. \<open>strptime\<close>, the date parser of the standard library, is a
  parameter.
\<close>

record 'p hgroup =
  hg_name :: string
  hg_spotifyId :: "string option"
  hg_payload :: 'p
  hg_createdAt :: "int option"
  hg_updatedAt :: "int option"

record halbum =
  ha_name :: string
  ha_artistId :: nat
  ha_artistName :: string
  ha_spotifyId :: "string option"
  ha_releaseDate :: "int option"
  ha_totalTracks :: int
  ha_albumType :: string
  ha_discoverySource :: string
  ha_lastScraped :: int
  ha_createdAt :: "int option"
  ha_updatedAt :: "int option"

definition parse_release_date :: "(string \<Rightarrow> int option) \<Rightarrow> string \<Rightarrow> int option" where
  "parse_release_date strptime release_date_str =
     (if release_date_str = [] then None
      else if length release_date_str = 10 then strptime release_date_str
      else if length release_date_str = 7 then strptime (release_date_str @ ''-01'')
      else if length release_date_str = 4 then strptime (release_date_str @ ''-01-01'')
      else None)"

definition final_album_type :: "int \<Rightarrow> string" where
  "final_album_type tracks =
     (if tracks \<ge> 8 then ''album'' else if tracks \<ge> 4 then ''ep'' else ''single'')"

definition create_album_document ::
  "(string \<Rightarrow> int option) \<Rightarrow> int \<Rightarrow> album \<Rightarrow> nat \<times> string \<Rightarrow> halbum" where
  "create_album_document strptime now spotify_release group_data =
     \<lparr>ha_name = strip (album_name spotify_release),
      ha_artistId = fst group_data,
      ha_artistName = snd group_data,
      ha_spotifyId = Some (case album_id spotify_release of None \<Rightarrow> [] | Some i \<Rightarrow> i),
      ha_releaseDate = parse_release_date strptime (date_key spotify_release),
      ha_totalTracks = total_tracks spotify_release,
      ha_albumType = final_album_type (total_tracks spotify_release),
      ha_discoverySource = ''Spotify'',
      ha_lastScraped = now,
      ha_createdAt = Some now,
      ha_updatedAt = Some now\<rparr>"

text \<open>
  The filter \<open>{"name": {"$regex": "^" + re.escape(n) + "$", "$options": "i"}}\<close>: the
  stored name is \<open>n\<close> up to case, possibly followed by one newline.
\<close>

definition name_regex_match :: "string \<Rightarrow> string \<Rightarrow> bool" where
  "name_regex_match n stored = (lower stored = lower n \<or> lower stored = lower n @ [CHR 0x0A])"

definition fresh_id :: "(nat \<times> 'd) list \<Rightarrow> nat" where
  "fresh_id coll = Suc (fold max (map fst coll) 0)"

definition replace_one :: "nat \<Rightarrow> 'd \<Rightarrow> (nat \<times> 'd) list \<Rightarrow> (nat \<times> 'd) list" where
  "replace_one i d coll = (if i \<in> set (map fst coll) then AList.update i d coll else coll)"

datatype action = Created | Updated | Error

definition group_matches :: "'p hgroup \<Rightarrow> nat \<times> 'p hgroup \<Rightarrow> bool" where
  "group_matches document e =
     (hg_spotifyId (snd e) = hg_spotifyId document \<or> name_regex_match (hg_name document) (hg_name (snd e)))"

text \<open>
  \<open>save_or_update_group\<close>: \<open>db_ok\<close> is false when an operation on the collection raises.
  The result is the success flag, the action, the final document with its \<open>_id\<close>, and the
  collection.
\<close>

definition save_or_update_group ::
  "bool \<Rightarrow> int \<Rightarrow> 'p hgroup \<Rightarrow> (nat \<times> 'p hgroup) list \<Rightarrow>
   bool \<times> action \<times> (nat \<times> 'p hgroup) option \<times> (nat \<times> 'p hgroup) list" where
  "save_or_update_group db_ok now document coll =
     (if \<not> db_ok then (False, Error, None, coll)
      else
        (case find (group_matches document) coll of
           Some existing \<Rightarrow>
             let document' = document\<lparr>
                   hg_createdAt := Some (case hg_createdAt (snd existing) of None \<Rightarrow> now | Some c \<Rightarrow> c),
                   hg_updatedAt := Some now\<rparr>
             in (True, Updated, Some (fst existing, document'),
                 replace_one (fst existing) document' coll)
         | None \<Rightarrow>
             (True, Created, Some (fresh_id coll, document), coll @ [(fresh_id coll, document)])))"

definition album_matches :: "halbum \<Rightarrow> nat \<times> halbum \<Rightarrow> bool" where
  "album_matches document e =
     (ha_spotifyId (snd e) = ha_spotifyId document \<or>
      (ha_artistName (snd e) = ha_artistName document \<and>
       name_regex_match (ha_name document) (ha_name (snd e))))"

definition save_or_update_album ::
  "bool \<Rightarrow> int \<Rightarrow> halbum \<Rightarrow> (nat \<times> halbum) list \<Rightarrow> bool \<times> action \<times> (nat \<times> halbum) list" where
  "save_or_update_album db_ok now document coll =
     (if \<not> db_ok then (False, Error, coll)
      else
        (case find (album_matches document) coll of
           Some existing \<Rightarrow>
             let document' = document\<lparr>
                   ha_createdAt := Some (case ha_createdAt (snd existing) of None \<Rightarrow> now | Some c \<Rightarrow> c),
                   ha_updatedAt := Some now\<rparr>
             in (True, Updated, replace_one (fst existing) document' coll)
         | None \<Rightarrow> (True, Created, coll @ [(fresh_id coll, document)])))"

section \<open>hybrid\_kpop\_collector: name similarity and the revalidation pass\<close>

text \<open>
  \<open>difflib.SequenceMatcher(None, a, b).ratio()\<close> is \<open>2 * M / (len(a) + len(b))\<close>, where
  \<open>M\<close> is the total size of the matching blocks: the longest common block (the one that
  starts earliest in \<open>a\<close>, then earliest in \<open>b\<close>), and recursively the blocks to its left
  and to its right. This is the library's behaviour without junk, that is for a second
  string of fewer than 200 characters. The float result is modelled by the exact quotient.
\<close>

fun common_prefix_len :: "string \<Rightarrow> string \<Rightarrow> nat" where
  "common_prefix_len (x # xs) (y # ys) = (if x = y then Suc (common_prefix_len xs ys) else 0)"
| "common_prefix_len xs ys = 0"

definition better :: "string \<Rightarrow> string \<Rightarrow> nat \<times> nat \<Rightarrow> nat \<times> nat \<times> nat \<Rightarrow> nat \<times> nat \<times> nat" where
  "better a b ij best =
     (let k = common_prefix_len (drop (fst ij) a) (drop (snd ij) b) in
      if k > snd (snd best) then (fst ij, snd ij, k) else best)"

definition find_longest_match :: "string \<Rightarrow> string \<Rightarrow> nat \<times> nat \<times> nat" where
  "find_longest_match a b =
     fold (better a b) (List.product [0..<length a] [0..<length b]) (0, 0, 0)"

lemma fold_better_bounds:
  "(\<forall>ij \<in> set ps. fst ij < n \<and> snd ij < m) \<Longrightarrow>
   (snd (snd best) > 0 \<longrightarrow> fst best < n \<and> fst (snd best) < m) \<Longrightarrow>
   snd (snd (fold (better a b) ps best)) > 0 \<longrightarrow>
     fst (fold (better a b) ps best) < n \<and> fst (snd (fold (better a b) ps best)) < m"
proof (induction ps arbitrary: best)
  case Nil
  then show ?case by simp
next
  case (Cons p ps)
  have "snd (snd (better a b p best)) > 0 \<longrightarrow>
        fst (better a b p best) < n \<and> fst (snd (better a b p best)) < m"
    using Cons.prems by (simp add: better_def Let_def)
  with Cons show ?case by simp
qed

lemma find_longest_match_bounds:
  "snd (snd (find_longest_match a b)) \<noteq> 0 \<Longrightarrow>
   fst (find_longest_match a b) < length a \<and> fst (snd (find_longest_match a b)) < length b"
  using fold_better_bounds [of "List.product [0..<length a] [0..<length b]" "length a" "length b" "(0, 0, 0)" a b]
  by (auto simp: find_longest_match_def)

text \<open>
  With \<open>(i, j, k) = find_longest_match a b\<close>: no block when \<open>k = 0\<close>, else \<open>k\<close> plus the
  blocks of \<open>a[:i], b[:j]\<close> and of \<open>a[i+k:], b[j+k:]\<close>.
\<close>

function matches :: "string \<Rightarrow> string \<Rightarrow> nat" where
  "matches a b =
     (if snd (snd (find_longest_match a b)) = 0 then 0
      else snd (snd (find_longest_match a b))
           + matches (take (fst (find_longest_match a b)) a)
                     (take (fst (snd (find_longest_match a b))) b)
           + matches (drop (fst (find_longest_match a b) + snd (snd (find_longest_match a b))) a)
                     (drop (fst (snd (find_longest_match a b)) + snd (snd (find_longest_match a b))) b))"
  by pat_completeness auto
termination
proof (relation "measure (\<lambda>(a, b). length a + length b)", goal_cases)
  case 1
  show ?case by simp
next
  case (2 a b)
  then show ?case using find_longest_match_bounds [of a b] by simp
next
  case (3 a b)
  then show ?case using find_longest_match_bounds [of a b] by (simp, arith)
qed

definition ratio :: "string \<Rightarrow> string \<Rightarrow> real" where
  "ratio a b =
     (if length a + length b = 0 then 1
      else 2 * real (matches a b) / real (length a + length b))"

definition calculate_name_similarity :: "string \<Rightarrow> string \<Rightarrow> real" where
  "calculate_name_similarity name1 name2 =
     (let n1 = strip (lower name1); n2 = strip (lower name2); similarity = ratio n1 n2 in
      if str_in n1 n2 \<or> str_in n2 n1 then max similarity 0.8 else similarity)"

text \<open>
  One step of the loop of \<open>cleanup_invalid_spotify_artists\<close>: what is done with a group,
  given the provider's answer to the lookup of its id.
\<close>

datatype artist_answer =
    ArtistAnswer (answer_status: int) (answer_retry_after: header) (answer_name: string)
                 (answer_genres: "string list")
  | AnswerFailed

datatype verdict =
    Deleted string
  | Checked
  | RateLimitedWait int
  | RateLimitedSkip
  | HttpError
  | Skipped

definition check_group :: "string \<Rightarrow> bool \<Rightarrow> artist_answer \<Rightarrow> verdict" where
  "check_group grp_name token_ok answer =
     (if \<not> token_ok then Skipped
      else
        (case answer of
           AnswerFailed \<Rightarrow> Skipped
         | ArtistAnswer code hdr found_name found_genres \<Rightarrow>
             if code = 200 then
               (if \<not> has_kpop_genre found_genres then Deleted ''Pas K-pop sur Spotify''
                else if calculate_name_similarity grp_name found_name < 0.6
                  then Deleted (''Nom incorrect: '' @ found_name)
                else Checked)
             else if code = 404 then Deleted ''Artiste inexistant sur Spotify''
             else if code = 429 then
               (case hdr of
                  Malformed \<Rightarrow> Skipped
                | _ \<Rightarrow>
                    let wait_time = (case hdr of Numeric n \<Rightarrow> n | _ \<Rightarrow> 60) in
                    if wait_time \<le> 300 then (if wait_time < 0 then Skipped else RateLimitedWait wait_time)
                    else RateLimitedSkip)
             else HttpError))"

record cleanup_counters =
  invalid_count :: nat
  rate_limited_count :: nat
  checked_count :: nat

record cleanup_stats =
  checked :: nat
  deleted :: nat
  rate_limited :: nat

definition delete_group_and_albums ::
  "nat \<Rightarrow> (nat \<times> 'p hgroup) list \<times> (nat \<times> halbum) list \<Rightarrow>
   (nat \<times> 'p hgroup) list \<times> (nat \<times> halbum) list" where
  "delete_group_and_albums gid st =
     (case st of (groups, albums) \<Rightarrow>
        (filter (\<lambda>g. fst g \<noteq> gid) groups, filter (\<lambda>d. ha_artistId (snd d) \<noteq> gid) albums))"

fun cleanup_loop ::
  "(nat \<Rightarrow> bool \<times> artist_answer) \<Rightarrow> (nat \<times> 'p hgroup) list \<Rightarrow>
   cleanup_counters \<times> (nat \<times> 'p hgroup) list \<times> (nat \<times> halbum) list \<Rightarrow>
   cleanup_counters \<times> (nat \<times> 'p hgroup) list \<times> (nat \<times> halbum) list" where
  "cleanup_loop env [] st = st"
| "cleanup_loop env (g # gs) (cnt, colls) =
     cleanup_loop env gs
       (case check_group (hg_name (snd g)) (fst (env (fst g))) (snd (env (fst g))) of
          Deleted reason \<Rightarrow>
            (cnt\<lparr>invalid_count := invalid_count cnt + 1\<rparr>, delete_group_and_albums (fst g) colls)
        | Checked \<Rightarrow> (cnt\<lparr>checked_count := checked_count cnt + 1\<rparr>, colls)
        | RateLimitedWait w \<Rightarrow> (cnt\<lparr>rate_limited_count := rate_limited_count cnt + 1\<rparr>, colls)
        | RateLimitedSkip \<Rightarrow> (cnt\<lparr>rate_limited_count := rate_limited_count cnt + 1\<rparr>, colls)
        | HttpError \<Rightarrow> (cnt, colls)
        | Skipped \<Rightarrow> (cnt, colls))"

text \<open>
  \<open>cleanup_invalid_spotify_artists\<close>. The query filter is written
  \<open>{"$exists": True, "$ne": None, "$ne": ""}\<close>: a Python dict keeps the last value of a
  repeated key, so the filter sent is \<open>{"$exists": True, "$ne": ""}\<close>, which selects every
  document that has the key \<open>spotifyId\<close> with a value other than the empty string, the
  value \<open>null\<close> included. In a group document \<open>hg_spotifyId = None\<close> stands for a key
  that is missing or \<open>null\<close>; \<open>has_key i\<close> tells which of the two it is for the document
  with \<open>_id\<close> \<open>i\<close>. The groups selected are checked in order.

  The function has one \<open>return\<close> statement, in the handler of the outer \<open>try\<close>
  (reached when the query of the groups raises, \<open>find_ok\<close> false); when the loop ends, the
  body ends without one, and the call yields Python's \<open>None\<close>. The first component is the
  returned value, the second the counters the loop kept.
\<close>

definition groups_with_spotify ::
  "(nat \<Rightarrow> bool) \<Rightarrow> (nat \<times> 'p hgroup) list \<Rightarrow> (nat \<times> 'p hgroup) list" where
  "groups_with_spotify has_key groups =
     filter (\<lambda>g. case hg_spotifyId (snd g) of None \<Rightarrow> has_key (fst g) | Some i \<Rightarrow> i \<noteq> []) groups"

definition cleanup_invalid_spotify_artists ::
  "bool \<Rightarrow> (nat \<Rightarrow> bool) \<Rightarrow> (nat \<Rightarrow> bool \<times> artist_answer) \<Rightarrow>
   (nat \<times> 'p hgroup) list \<times> (nat \<times> halbum) list \<Rightarrow>
   cleanup_stats option \<times> cleanup_counters \<times> (nat \<times> 'p hgroup) list \<times> (nat \<times> halbum) list" where
  "cleanup_invalid_spotify_artists find_ok has_key env colls =
     (if \<not> find_ok
      then (Some \<lparr>checked = 0, deleted = 0, rate_limited = 0\<rparr>,
            \<lparr>invalid_count = 0, rate_limited_count = 0, checked_count = 0\<rparr>, colls)
      else (None,
            cleanup_loop env (groups_with_spotify has_key (fst colls))
              (\<lparr>invalid_count = 0, rate_limited_count = 0, checked_count = 0\<rparr>, colls)))"

section \<open>hybrid\_kpop\_collector: the pipeline run\<close>

record album_stats =
  albums_discovered :: nat
  albums_created :: nat
  albums_updated :: nat
  albums_failed :: nat

text \<open>
  The loop over the albums of one group: \<open>db\<close> says, write after write, whether the
  collection accepts the operation (all writes past the list succeed).
\<close>

fun save_albums ::
  "(string \<Rightarrow> int option) \<Rightarrow> int \<Rightarrow> nat \<times> string \<Rightarrow> album list \<Rightarrow> bool list \<Rightarrow>
   album_stats \<times> (nat \<times> halbum) list \<Rightarrow> album_stats \<times> (nat \<times> halbum) list" where
  "save_albums strptime now group_data [] db st = st"
| "save_albums strptime now group_data (a # as) db (stats, coll) =
     (case save_or_update_album (case db of [] \<Rightarrow> True | b # bs \<Rightarrow> b) now
             (create_album_document strptime now a group_data) coll of
        (album_success, album_action, coll') \<Rightarrow>
          save_albums strptime now group_data as (tl db)
            (if album_success then
               (if album_action = Created then stats\<lparr>albums_created := albums_created stats + 1\<rparr>
                else if album_action = Updated then stats\<lparr>albums_updated := albums_updated stats + 1\<rparr>
                else stats)
             else stats\<lparr>albums_failed := albums_failed stats + 1\<rparr>,
             coll'))"

text \<open>
  What one unit of phase 2 meets: whether the token can be refreshed, the answers to a
  search by name (\<open>unit_pages\<close>), the answers to a listing by id (\<open>unit_listing\<close>), and the
  outcome of the writes. The harvest of a group returns when its listing does.
\<close>

record unit_env =
  unit_token_ok :: bool
  unit_pages :: "page list"
  unit_listing :: "nat \<Rightarrow> page"
  unit_db :: "bool list"

definition process_existing_group_albums ::
  "(string \<Rightarrow> int option) \<Rightarrow> int \<Rightarrow> unit_env \<Rightarrow> nat \<times> 'p hgroup \<Rightarrow> (nat \<times> halbum) list \<Rightarrow>
   (album_stats \<times> (nat \<times> halbum) list) option" where
  "process_existing_group_albums strptime now env group_data coll =
     (case (case hg_spotifyId (snd group_data) of
              None \<Rightarrow>
                Some (search_albums_by_artist (unit_token_ok env) (unit_pages env) (hg_name (snd group_data)))
            | Some spotify_id \<Rightarrow>
                if spotify_id \<noteq> []
                then search_albums_by_artist_id (unit_token_ok env) (unit_listing env) spotify_id
                else Some (search_albums_by_artist (unit_token_ok env) (unit_pages env)
                             (hg_name (snd group_data)))) of
        None \<Rightarrow> None
      | Some albums \<Rightarrow>
          Some (save_albums strptime now (fst group_data, hg_name (snd group_data)) albums (unit_db env)
                  (\<lparr>albums_discovered = length albums, albums_created = 0, albums_updated = 0,
                    albums_failed = 0\<rparr>, coll)))"

text \<open>
  \<open>process_artist_complete\<close> starts with \<open>self.create_group_document(spotify_artist)\<close>, a
  method the class does not define: the call raises \<open>AttributeError\<close> inside the \<open>try\<close>, and
  the handler returns the statistics as they were initialised.
\<close>

record artist_stats =
  group_action :: string
  new_albums_discovered :: nat
  new_albums_created :: nat
  new_albums_updated :: nat
  new_albums_failed :: nat

definition process_artist_complete :: "artist \<Rightarrow> artist_stats" where
  "process_artist_complete spotify_artist =
     \<lparr>group_action = ''failed'', new_albums_discovered = 0, new_albums_created = 0,
      new_albums_updated = 0, new_albums_failed = 0\<rparr>"

record global_stats =
  phase_1_discovered :: nat
  phase_1_processed :: nat
  phase_1_groups_created :: nat
  phase_1_albums_created :: nat
  phase_2_groups_processed :: nat
  phase_2_albums_created :: nat
  phase_2_albums_updated :: nat
  total_albums_created :: nat
  total_albums_updated :: nat
  cleaned_count :: nat

text \<open>
  \<open>load_existing_groups_cache\<close> and \<open>cleanup_old_data\<close>, the preparation of a run. When
  the query of the groups raises, the caches keep their previous content. The regular
  expressions of the store take \<open>\s\<close> as the six ASCII white space characters;
  \<open>unset_modified\<close> is the number of documents the removal of obsolete fields changed.
\<close>

definition load_existing_groups_cache ::
  "bool \<Rightarrow> (nat \<times> 'p hgroup) list \<Rightarrow> string set \<times> string set \<Rightarrow> string set \<times> string set" where
  "load_existing_groups_cache db_ok groups caches =
     (if \<not> db_ok then caches
      else (set (map (\<lambda>g. strip (lower (hg_name (snd g)))) groups),
            set (concat (map (\<lambda>g. case hg_spotifyId (snd g) of
                                      None \<Rightarrow> []
                                    | Some i \<Rightarrow> if i \<noteq> [] then [i] else []) groups))))"

definition store_space :: "char \<Rightarrow> bool" where
  "store_space c = (c \<in> set [CHR 0x09, CHR 0x0A, CHR 0x0B, CHR 0x0C, CHR 0x0D, CHR 0x20])"

definition placeholder_name :: "string \<Rightarrow> bool" where
  "placeholder_name n =
     (rev (dropWhile store_space (rev (dropWhile store_space (lower n))))
        \<in> set [''(null)'', ''null'', ''undefined''])"

definition cleanup_old_data :: "bool \<Rightarrow> nat \<Rightarrow> (nat \<times> halbum) list \<Rightarrow> nat \<times> (nat \<times> halbum) list" where
  "cleanup_old_data db_ok unset_modified coll =
     (if \<not> db_ok then (0, coll)
      else (unset_modified + length (filter (\<lambda>d. placeholder_name (ha_name (snd d))) coll),
            filter (\<lambda>d. \<not> placeholder_name (ha_name (snd d))) coll))"

definition get_all_existing_groups :: "bool \<Rightarrow> (nat \<times> 'p hgroup) list \<Rightarrow> (nat \<times> 'p hgroup) list" where
  "get_all_existing_groups db_ok groups = (if \<not> db_ok then [] else groups)"

fun phase_1 :: "artist list \<Rightarrow> global_stats \<Rightarrow> global_stats" where
  "phase_1 [] stats = stats"
| "phase_1 (spotify_artist # rest) stats =
     (let artist_stats = process_artist_complete spotify_artist;
          stats1 = stats\<lparr>phase_1_processed := phase_1_processed stats + 1\<rparr>;
          stats2 = (if str_in ''created'' (group_action artist_stats)
                    then stats1\<lparr>phase_1_groups_created := phase_1_groups_created stats1 + 1\<rparr>
                    else stats1)
      in phase_1 rest
           (stats2\<lparr>phase_1_albums_created :=
                      phase_1_albums_created stats2 + new_albums_created artist_stats\<rparr>))"

fun phase_2 ::
  "(string \<Rightarrow> int option) \<Rightarrow> int \<Rightarrow> (nat \<Rightarrow> unit_env) \<Rightarrow> (nat \<times> 'p hgroup) list \<Rightarrow>
   global_stats \<times> (nat \<times> halbum) list \<Rightarrow> (global_stats \<times> (nat \<times> halbum) list) option" where
  "phase_2 strptime now units [] st = Some st"
| "phase_2 strptime now units (group_data # rest) (stats, coll) =
     (case process_existing_group_albums strptime now (units (fst group_data)) group_data coll of
        None \<Rightarrow> None
      | Some (album_stats, coll') \<Rightarrow>
          phase_2 strptime now units rest
            (stats\<lparr>phase_2_groups_processed := phase_2_groups_processed stats + 1,
                   phase_2_albums_created := phase_2_albums_created stats + albums_created album_stats,
                   phase_2_albums_updated := phase_2_albums_updated stats + albums_updated album_stats\<rparr>,
             coll'))"

record run_env =
  cache_ok :: bool
  prior_caches :: "string set \<times> string set"
  cleanup_ok :: bool
  unset_modified :: nat
  discovery :: "string \<Rightarrow> bool \<times> artist_page list"
  groups_ok :: bool
  units :: "nat \<Rightarrow> unit_env"

text \<open>A run returns its report when phase 2 comes to its end.\<close>

definition run_hybrid_collection ::
  "(string \<Rightarrow> int option) \<Rightarrow> int \<Rightarrow> run_env \<Rightarrow> (nat \<times> 'p hgroup) list \<Rightarrow> (nat \<times> halbum) list \<Rightarrow>
   (global_stats \<times> (nat \<times> halbum) list) option" where
  "run_hybrid_collection strptime now env groups coll =
     (case load_existing_groups_cache (cache_ok env) groups (prior_caches env) of
        (existing_group_names, processed_spotify_ids) \<Rightarrow>
     (case cleanup_old_data (cleanup_ok env) (unset_modified env) coll of
        (cleaned, coll1) \<Rightarrow>
     (case discover_new_kpop_artists existing_group_names (discovery env) processed_spotify_ids of
        (discovered_artists, processed') \<Rightarrow>
     (let stats0 = \<lparr>phase_1_discovered = length discovered_artists, phase_1_processed = 0,
                    phase_1_groups_created = 0, phase_1_albums_created = 0,
                    phase_2_groups_processed = 0, phase_2_albums_created = 0,
                    phase_2_albums_updated = 0, total_albums_created = 0,
                    total_albums_updated = 0, cleaned_count = cleaned\<rparr>;
          stats1 = phase_1 discovered_artists stats0
      in (case phase_2 strptime now (units env) (get_all_existing_groups (groups_ok env) groups)
                 (stats1, coll1) of
            None \<Rightarrow> None
          | Some (stats2, coll2) \<Rightarrow>
              Some (stats2\<lparr>total_albums_created := phase_1_albums_created stats2 + phase_2_albums_created stats2,
                           total_albums_updated := phase_2_albums_updated stats2\<rparr>,
                    coll2))))))"

section \<open>Properties of the cleaner\<close>

subsection \<open>A rate limit beyond the ceiling\<close>

text \<open>
  Neither reason that \<open>clean_albums_for_group\<close> passes to \<open>mark_group_as_invalid\<close> has one
  of the marks that select its rate-limit branch, so a refresh never writes \<open>rateLimited\<close>
  or \<open>retryAfter\<close>.
\<close>

lemma mark_no_id: "mark_group_as_invalid now ''Pas de Spotify ID'' g =
   g\<lparr>isActive := False, invalidReason := Some ''Pas de Spotify ID'', invalidatedAt := Some now,
     group_updatedAt := Some now\<rparr>"
  by (simp add: mark_group_as_invalid_def lower_def lower_char_def)

lemma mark_not_kpop: "mark_group_as_invalid now ''Pas K-pop ou artiste inexistant'' g =
   g\<lparr>isActive := False, invalidReason := Some ''Pas K-pop ou artiste inexistant'',
     invalidatedAt := Some now, group_updatedAt := Some now\<rparr>"
  by (simp add: mark_group_as_invalid_def lower_def lower_char_def)

lemma clean_never_quarantines:
  "retryAfter (fst (clean_albums_for_group now token_ok env token_ok2 official_pages search_pages (g, stored)))
     = retryAfter g \<and>
   rateLimited (fst (clean_albums_for_group now token_ok env token_ok2 official_pages search_pages (g, stored)))
     = rateLimited g"
  by (simp add: clean_albums_for_group_def mark_no_id mark_not_kpop Let_def
      split: option.splits prod.splits)

text \<open>
  C1. The provider answers the validation of a group with status 429 and a suggested wait
  of 700 seconds, above the ceiling of 600. The validation gives up without sleeping (the
  list of sleeps is empty), but \<open>clean_albums_for_group\<close> then marks the group with the
  reason \<open>Pas K-pop ou artiste inexistant\<close>, which has none of the rate-limit marks
  \<open>mark_group_as_invalid\<close> looks for: the group becomes inactive, and neither
  \<open>rateLimited\<close> nor the retry time \<open>now + 86400\<close> is written.
\<close>

theorem rate_limit_700_deactivates_group:
  "clean_albums_for_group now True (\<lambda>n. Response 429 (Numeric 700) []) token_ok2
     official_pages search_pages
     (\<lparr>group_id = 1, group_name = ''TWICE'', spotifyId = Some ''7n2Ycct7Beij7Dj7meI4X0'',
       social_spotify = [], isActive = True, rateLimited = None, lastRateLimitedAt = None,
       retryAfter = None, rateLimitReason = None, invalidReason = None, invalidatedAt = None,
       lastValidated = None, group_updatedAt = None\<rparr>, stored)
   = (\<lparr>group_id = 1, group_name = ''TWICE'', spotifyId = Some ''7n2Ycct7Beij7Dj7meI4X0'',
       social_spotify = [], isActive = False, rateLimited = None, lastRateLimitedAt = None,
       retryAfter = None, rateLimitReason = None,
       invalidReason = Some ''Pas K-pop ou artiste inexistant'', invalidatedAt = Some now,
       lastValidated = None, group_updatedAt = Some now\<rparr>, stored, [])"
  by (simp add: clean_albums_for_group_def extract_spotify_id_from_group_def
      validate_kpop_artist_by_id_def max_retries_def mark_group_as_invalid_def lower_def
      lower_char_def)

subsection \<open>The merged dictionary\<close>

text \<open>
  The dictionary built from the official albums has distinct keys, every value carries its
  key as id and the tag \<open>official\<close>; the search albums only append entries, tagged
  \<open>search\<close>, under keys that were not there.
\<close>

lemma update_absent: "k \<notin> fst ` set d \<Longrightarrow> AList.update k v d = d @ [(k, v)]"
  by (induction d) auto

definition official_dict :: "(string \<times> album) list \<Rightarrow> bool" where
  "official_dict d =
     (distinct (map fst d) \<and>
      (\<forall>kv \<in> set d. album_id (snd kv) = Some (fst kv) \<and> fst kv \<noteq> [] \<and>
                       discovery_method (snd kv) = Some ''official''))"

lemma truthy_id_Some: "truthy_id a = Some i \<longleftrightarrow> album_id a = Some i \<and> i \<noteq> []"
  by (auto simp: truthy_id_def split: option.splits)

lemma set_update_subset: "set (AList.update k v d) \<subseteq> insert (k, v) (set d)"
  by (induction d) auto

lemma official_dict_add:
  assumes "official_dict d"
  shows "official_dict (add_official a d)"
proof (cases "truthy_id a")
  case None
  then show ?thesis using assms by (simp add: add_official_def)
next
  case (Some i)
  let ?v = "a\<lparr>discovery_method := Some ''official''\<rparr>"
  have eq: "add_official a d = AList.update i ?v d"
    using Some by (simp add: add_official_def)
  have 1: "distinct (map fst (AList.update i ?v d))"
    using assms by (simp add: official_dict_def distinct_update)
  have 2: "album_id (snd kv) = Some (fst kv) \<and> fst kv \<noteq> [] \<and>
           discovery_method (snd kv) = Some ''official''"
    if "kv \<in> set (AList.update i ?v d)" for kv
  proof -
    from that set_update_subset [of i ?v d] have "kv = (i, ?v) \<or> kv \<in> set d" by blast
    then show ?thesis
    proof
      assume "kv = (i, ?v)"
      then show ?thesis using Some by (simp add: truthy_id_Some)
    next
      assume "kv \<in> set d"
      then show ?thesis using assms by (simp add: official_dict_def)
    qed
  qed
  show ?thesis unfolding eq official_dict_def using 1 2 by blast
qed

lemma official_dict_fold: "official_dict d \<Longrightarrow> official_dict (fold add_official A d)"
  by (induction A arbitrary: d) (simp_all add: official_dict_add)

lemma keys_add_official:
  "fst ` set (add_official a d) =
     fst ` set d \<union> (case truthy_id a of None \<Rightarrow> {} | Some i \<Rightarrow> {i})"
  by (cases "truthy_id a") (simp_all add: add_official_def dom_update)

lemma keys_fold_official:
  "fst ` set (fold add_official A d) =
     fst ` set d \<union> {i. \<exists>a \<in> set A. truthy_id a = Some i}"
proof (induction A arbitrary: d)
  case Nil
  show ?case by simp
next
  case (Cons b A)
  show ?case
    by (cases "truthy_id b") (auto simp: Cons.IH keys_add_official)
qed


lemma map_of_add_official_other:
  "album_id b \<noteq> Some X \<Longrightarrow> map_of (add_official b d) X = map_of d X"
  by (auto simp: add_official_def truthy_id_def update_conv' split: option.splits)

lemma map_of_add_official_same:
  "album_id b = Some X \<Longrightarrow> X \<noteq> [] \<Longrightarrow>
   map_of (add_official b d) X = Some (b\<lparr>discovery_method := Some ''official''\<rparr>)"
  by (simp add: add_official_def truthy_id_def update_conv')

lemma map_of_fold_official_keep:
  "\<forall>b \<in> set A. album_id b \<noteq> Some X \<Longrightarrow> map_of (fold add_official A d) X = map_of d X"
  by (induction A arbitrary: d) (simp_all add: map_of_add_official_other)

lemma map_of_fold_official:
  assumes "a \<in> set A" "album_id a = Some X" "X \<noteq> []"
    and "\<forall>b \<in> set A. album_id b = Some X \<longrightarrow> b = a"
  shows "map_of (fold add_official A d) X = Some (a\<lparr>discovery_method := Some ''official''\<rparr>)"
  using assms
proof (induction A arbitrary: d)
  case Nil
  then show ?case by simp
next
  case (Cons b A)
  have uniq: "\<forall>c \<in> set A. album_id c = Some X \<longrightarrow> c = a"
    using Cons.prems(4) by simp
  note IH = Cons.IH [OF _ Cons.prems(2,3) uniq]
  show ?case
  proof (cases "a \<in> set A")
    case True
    from IH [OF True] show ?thesis by simp
  next
    case False
    then have ba: "b = a" using Cons.prems(1) by simp
    from False uniq have "\<forall>c \<in> set A. album_id c \<noteq> Some X" by blast
    then have "map_of (fold add_official A (add_official b d)) X = map_of (add_official b d) X"
      by (rule map_of_fold_official_keep)
    also have "\<dots> = Some (a\<lparr>discovery_method := Some ''official''\<rparr>)"
      unfolding ba using Cons.prems(2,3) by (rule map_of_add_official_same)
    finally show ?thesis by simp
  qed
qed

definition search_tail :: "(string \<times> album) list \<Rightarrow> (string \<times> album) list \<Rightarrow> bool" where
  "search_tail d e =
     (distinct (map fst (d @ e)) \<and>
      (\<forall>kv \<in> set e. album_id (snd kv) = Some (fst kv) \<and> fst kv \<noteq> [] \<and>
                       discovery_method (snd kv) = Some ''search''))"

lemma add_search_append:
  assumes st: "search_tail d e"
  shows "\<exists>e'. add_search a (d @ e) = d @ e' \<and> search_tail d e'"
proof (cases "truthy_id a")
  case None
  then have "add_search a (d @ e) = d @ e" by (simp add: add_search_def)
  then show ?thesis using st by blast
next
  case (Some i)
  show ?thesis
  proof (cases "i \<in> fst ` set (d @ e)")
    case True
    then have "add_search a (d @ e) = d @ e" using Some by (auto simp: add_search_def)
    then show ?thesis using st by blast
  next
    case False
    let ?v = "a\<lparr>discovery_method := Some ''search''\<rparr>"
    have "add_search a (d @ e) = AList.update i ?v (d @ e)"
      using Some False by (auto simp: add_search_def image_Un)
    also have "\<dots> = (d @ e) @ [(i, ?v)]" using False by (rule update_absent)
    finally have eq: "add_search a (d @ e) = d @ (e @ [(i, ?v)])" by simp
    have "album_id a = Some i \<and> i \<noteq> []" using Some by (simp add: truthy_id_Some)
    moreover have "distinct (map fst (d @ e))" using st by (simp add: search_tail_def)
    moreover have "\<forall>kv \<in> set e. album_id (snd kv) = Some (fst kv) \<and> fst kv \<noteq> [] \<and>
                       discovery_method (snd kv) = Some ''search''"
      using st by (simp add: search_tail_def)
    ultimately have "search_tail d (e @ [(i, ?v)])"
      using False by (simp add: search_tail_def image_Un)
    with eq show ?thesis by blast
  qed
qed

lemma fold_search_append:
  "search_tail d e \<Longrightarrow> \<exists>e'. fold add_search S (d @ e) = d @ e' \<and> search_tail d e'"
proof (induction S arbitrary: e)
  case Nil
  then show ?case by auto
next
  case (Cons a S)
  from add_search_append [OF Cons.prems, of a]
  obtain e1 where e1: "add_search a (d @ e) = d @ e1" "search_tail d e1" by blast
  from Cons.IH [OF e1(2)] show ?case using e1(1) by simp
qed

lemma unique_albums_split:
  "\<exists>e. unique_albums A S = fold add_official A [] @ e \<and>
       official_dict (fold add_official A []) \<and> search_tail (fold add_official A []) e"
proof -
  have od: "official_dict (fold add_official A [])"
    by (rule official_dict_fold) (simp add: official_dict_def)
  then have "search_tail (fold add_official A []) []"
    by (simp add: search_tail_def official_dict_def)
  from fold_search_append [OF this, of S] obtain e where
    "fold add_search S (fold add_official A [] @ []) = fold add_official A [] @ e"
    "search_tail (fold add_official A []) e" by blast
  with od show ?thesis by (auto simp: unique_albums_def)
qed

text \<open>Every merged record is a release of one of the two lists, with its provenance mark.\<close>

definition entries_from :: "album list \<Rightarrow> (string \<times> album) list \<Rightarrow> bool" where
  "entries_from X d = (\<forall>kv \<in> set d. \<exists>a \<in> set X. \<exists>m. snd kv = a\<lparr>discovery_method := m\<rparr>)"

lemma entries_from_update:
  "entries_from X d \<Longrightarrow> a \<in> set X \<Longrightarrow> entries_from X (AList.update k (a\<lparr>discovery_method := m\<rparr>) d)"
  unfolding entries_from_def
  using set_update_subset [of k "a\<lparr>discovery_method := m\<rparr>" d] by fastforce

lemma entries_from_add_official:
  "entries_from X d \<Longrightarrow> a \<in> set X \<Longrightarrow> entries_from X (add_official a d)"
  by (auto simp: add_official_def intro: entries_from_update split: option.splits)

lemma entries_from_add_search:
  "entries_from X d \<Longrightarrow> a \<in> set X \<Longrightarrow> entries_from X (add_search a d)"
  by (auto simp: add_search_def intro: entries_from_update split: option.splits)

lemma entries_from_fold_official:
  "entries_from X d \<Longrightarrow> set A \<subseteq> set X \<Longrightarrow> entries_from X (fold add_official A d)"
  by (induction A arbitrary: d) (auto intro: entries_from_add_official)

lemma entries_from_fold_search:
  "entries_from X d \<Longrightarrow> set S \<subseteq> set X \<Longrightarrow> entries_from X (fold add_search S d)"
  by (induction S arbitrary: d) (auto intro: entries_from_add_search)

lemma unique_albums_entries: "entries_from (A @ S) (unique_albums A S)"
proof -
  have "entries_from (A @ S) []" by (simp add: entries_from_def)
  then have "entries_from (A @ S) (fold add_official A [])"
    by (rule entries_from_fold_official) simp
  then show ?thesis
    unfolding unique_albums_def by (rule entries_from_fold_search) simp
qed

lemma set_sort_reverse: "set (sort_reverse f xs) = set xs"
  by (simp add: sort_reverse_def)

lemma filter_sort_reverse:
  "filter (\<lambda>y. f y = k) (sort_reverse f xs) = filter (\<lambda>y. f y = k) xs"
  unfolding sort_reverse_def rev_filter [symmetric] sort_key_stable by simp

lemma filter_P_sort_reverse: "filter P (sort_reverse f xs) = sort_reverse f (filter P xs)"
  unfolding sort_reverse_def rev_filter [symmetric] filter_sort by simp

lemma length_sort_reverse: "length (sort_reverse f xs) = length xs"
  by (simp add: sort_reverse_def)


lemma length_filter_key:
  "distinct (map fst U) \<Longrightarrow> X \<in> fst ` set U \<Longrightarrow> length (filter (\<lambda>kv. fst kv = X) U) = 1"
proof (induction U)
  case Nil
  then show ?case by simp
next
  case (Cons p U)
  show ?case
  proof (cases "fst p = X")
    case True
    then have "X \<notin> fst ` set U" using Cons.prems(1) by auto
    then have "filter (\<lambda>kv. fst kv = X) U = []" by (auto simp: filter_empty_conv)
    then show ?thesis using True by simp
  next
    case False
    then show ?thesis using Cons by auto
  qed
qed

lemma filter_values_by_id:
  "\<forall>kv \<in> set U. album_id (snd kv) = Some (fst kv) \<Longrightarrow>
   filter (\<lambda>r. album_id r = Some X) (map snd U) = map snd (filter (\<lambda>kv. fst kv = X) U)"
  by (induction U) auto

lemma sorted_wrt_filter_iff:
  "sorted_wrt P (filter Q xs) \<longleftrightarrow> sorted_wrt (\<lambda>x y. Q x \<and> Q y \<longrightarrow> P x y) xs"
  by (induction xs) auto

lemma sorted_desc_sort_reverse: "sorted_wrt (\<lambda>x y. f y \<le> f x) (sort_reverse f xs)"
proof -
  have "sorted (map f (sort_key f (rev xs)))" by (rule sorted_sort_key)
  then have "sorted_wrt (\<lambda>x y. f x \<le> f y) (sort_key f (rev xs))" by (simp add: sorted_map)
  then show ?thesis by (simp add: sort_reverse_def sorted_wrt_rev)
qed

lemma sort_reverse_ties:
  fixes f :: "'a \<Rightarrow> 'k::linorder"
  assumes "sorted_wrt P xs"
  shows "sorted_wrt (\<lambda>x y. f y < f x \<or> (f x = f y \<and> P x y)) (sort_reverse f xs)"
proof -
  let ?m = "sort_reverse f xs"
  have desc: "sorted_wrt (\<lambda>x y. f y \<le> f x) ?m" by (rule sorted_desc_sort_reverse)
  have tie: "P (?m ! i) (?m ! j)" if "i < j" "j < length ?m" "f (?m ! i) = f (?m ! j)" for i j
  proof -
    let ?k = "f (?m ! i)"
    have "sorted_wrt P (filter (\<lambda>y. f y = ?k) xs)" using assms by (rule sorted_wrt_filter)
    then have "sorted_wrt P (filter (\<lambda>y. f y = ?k) ?m)" by (simp add: filter_sort_reverse)
    then have "sorted_wrt (\<lambda>x y. f x = ?k \<and> f y = ?k \<longrightarrow> P x y) ?m"
      by (simp add: sorted_wrt_filter_iff)
    then show ?thesis using that by (auto simp: sorted_wrt_iff_nth_less)
  qed
  show ?thesis
    unfolding sorted_wrt_iff_nth_less
  proof (intro allI impI)
    fix i j assume ij: "i < j" "j < length ?m"
    then have "f (?m ! j) \<le> f (?m ! i)" using desc by (auto simp: sorted_wrt_iff_nth_less)
    then show "f (?m ! j) < f (?m ! i) \<or> (f (?m ! i) = f (?m ! j) \<and> P (?m ! i) (?m ! j))"
      using tie [OF ij] by (cases "f (?m ! i) = f (?m ! j)") auto
  qed
qed

lemma sorted_wrt_all: "(\<forall>x \<in> set xs. \<forall>y \<in> set xs. P x y) \<Longrightarrow> sorted_wrt P xs"
  by (induction xs) auto

lemma officials_first:
  "sorted_wrt (\<lambda>x y. discovery_method x = Some ''search'' \<longrightarrow> discovery_method y = Some ''search'')
     (map snd (unique_albums A S))"
proof -
  let ?D = "fold add_official A []"
  obtain e where U: "unique_albums A S = ?D @ e" and od: "official_dict ?D"
    and st: "search_tail ?D e"
    using unique_albums_split [of A S] by blast
  have D: "\<forall>x \<in> set (map snd ?D). discovery_method x = Some ''official''"
    using od by (auto simp: official_dict_def)
  have E: "\<forall>y \<in> set (map snd e). discovery_method y = Some ''search''"
    using st by (auto simp: search_tail_def)
  have "sorted_wrt (\<lambda>x y. discovery_method x = Some ''search'' \<longrightarrow> discovery_method y = Some ''search'')
          (map snd ?D)"
    using D by (intro sorted_wrt_all) auto
  moreover have "sorted_wrt (\<lambda>x y. discovery_method x = Some ''search'' \<longrightarrow> discovery_method y = Some ''search'')
          (map snd e)"
    using E by (intro sorted_wrt_all) auto
  ultimately show ?thesis using D E by (auto simp: U sorted_wrt_append)
qed

text \<open>Sample releases of the artist with provider id \<open>owner\<close>.\<close>

definition rel :: "string \<Rightarrow> string \<Rightarrow> string option \<Rightarrow> int \<Rightarrow> string \<Rightarrow> album" where
  "rel i n d t owner =
     \<lparr>album_id = Some i, album_name = n, release_date = d, album_type = Some ''album'',
      album_group = ''album'', total_tracks = t,
      album_artists = [\<lparr>artist_id = Some owner, artist_name = ''TWICE''\<rparr>],
      discovery_method = None\<rparr>"

lemma merge_albums_sample:
  "merge_albums
     [rel ''A1'' ''Formula'' (Some ''2021-11-12'') 17 ''T'', rel ''A2'' ''Old'' (Some ''2020'') 8 ''T'']
     [rel ''A1'' ''Formula (dup)'' (Some ''2021-11-12'') 17 ''T'',
      rel ''S1'' ''Extra'' (Some ''2021-11-12'') 6 ''T'', rel ''S2'' ''Undated'' None 5 ''T'']
   = [(rel ''A1'' ''Formula'' (Some ''2021-11-12'') 17 ''T'')\<lparr>discovery_method := Some ''official''\<rparr>,
      (rel ''S1'' ''Extra'' (Some ''2021-11-12'') 6 ''T'')\<lparr>discovery_method := Some ''search''\<rparr>,
      (rel ''A2'' ''Old'' (Some ''2020'') 8 ''T'')\<lparr>discovery_method := Some ''official''\<rparr>,
      (rel ''S2'' ''Undated'' None 5 ''T'')\<lparr>discovery_method := Some ''search''\<rparr>]"
  by (simp add: merge_albums_def unique_albums_def add_official_def add_search_def truthy_id_def
      rel_def sort_reverse_def date_key_def)

subsection \<open>Priority of the authoritative listing\<close>

text \<open>
  C3 (as amended). Let \<open>a\<close> be an item of the authoritative list \<open>A\<close> with a non-empty id
  \<open>X\<close>, and \<open>S\<close> any search list (it may contain \<open>X\<close> too). The merged result has exactly
  one record with id \<open>X\<close>; every record with id \<open>X\<close> is tagged \<open>official\<close>; and when no
  other item of \<open>A\<close> has the id \<open>X\<close>, that record is \<open>a\<close> itself with the tag. An item
  without id is not kept, see the counterexample below.
\<close>

theorem merge_albums_authoritative:
  assumes "a \<in> set A" "album_id a = Some X" "X \<noteq> []"
  shows "length (filter (\<lambda>r. album_id r = Some X) (merge_albums A S)) = 1 \<and>
         (\<forall>r \<in> set (merge_albums A S). album_id r = Some X \<longrightarrow> discovery_method r = Some ''official'') \<and>
         ((\<forall>b \<in> set A. album_id b = Some X \<longrightarrow> b = a) \<longrightarrow>
            a\<lparr>discovery_method := Some ''official''\<rparr> \<in> set (merge_albums A S))"
proof -
  let ?D = "fold add_official A []"
  obtain e where U: "unique_albums A S = ?D @ e" and od: "official_dict ?D"
    and st: "search_tail ?D e"
    using unique_albums_split [of A S] by blast
  have dist: "distinct (map fst (?D @ e))" using st by (simp add: search_tail_def)
  have wf: "\<forall>kv \<in> set (?D @ e). album_id (snd kv) = Some (fst kv)"
    using od st by (auto simp: official_dict_def search_tail_def)
  have "truthy_id a = Some X" using assms by (simp add: truthy_id_Some)
  then have XD: "X \<in> fst ` set ?D"
    using assms(1) keys_fold_official [of A "[]"] by auto
  have 1: "length (filter (\<lambda>r. album_id r = Some X) (merge_albums A S)) = 1"
  proof -
    have "length (filter (\<lambda>r. album_id r = Some X) (merge_albums A S)) =
          length (filter (\<lambda>r. album_id r = Some X) (map snd (?D @ e)))"
      by (simp add: merge_albums_def U filter_P_sort_reverse length_sort_reverse)
    also have "\<dots> = length (filter (\<lambda>kv. fst kv = X) (?D @ e))"
      using filter_values_by_id [OF wf, of X] by simp
    also have "\<dots> = 1"
      using dist XD by (intro length_filter_key) auto
    finally show ?thesis .
  qed
  have 2: "discovery_method r = Some ''official''"
    if "r \<in> set (merge_albums A S)" "album_id r = Some X" for r
  proof -
    from that(1) obtain kv where kv: "kv \<in> set (?D @ e)" "snd kv = r"
      by (auto simp: merge_albums_def U set_sort_reverse)
    then have "fst kv = X" using wf that(2) by auto
    have "kv \<in> set ?D"
    proof (rule ccontr)
      assume "kv \<notin> set ?D"
      then have "kv \<in> set e" using kv(1) by simp
      then have "X \<in> fst ` set e" using \<open>fst kv = X\<close> by force
      then show False using dist XD by auto
    qed
    then show ?thesis using od kv(2) by (auto simp: official_dict_def)
  qed
  have 3: "a\<lparr>discovery_method := Some ''official''\<rparr> \<in> set (merge_albums A S)"
    if "\<forall>b \<in> set A. album_id b = Some X \<longrightarrow> b = a"
  proof -
    have "map_of ?D X = Some (a\<lparr>discovery_method := Some ''official''\<rparr>)"
      using assms that by (rule map_of_fold_official)
    then have "(X, a\<lparr>discovery_method := Some ''official''\<rparr>) \<in> set ?D"
      by (rule map_of_SomeD)
    then have "a\<lparr>discovery_method := Some ''official''\<rparr> \<in> snd ` set (?D @ e)" by force
    then show ?thesis by (auto simp: merge_albums_def U set_sort_reverse)
  qed
  from 1 2 3 show ?thesis by blast
qed

theorem merge_albums_authoritative_witness:
  "rel ''A1'' ''Formula'' (Some ''2021-11-12'') 17 ''T''
     \<in> set [rel ''A1'' ''Formula'' (Some ''2021-11-12'') 17 ''T'', rel ''A2'' ''Old'' (Some ''2020'') 8 ''T''] \<and>
   album_id (rel ''A1'' ''Formula'' (Some ''2021-11-12'') 17 ''T'') = Some ''A1'' \<and>
   ''A1'' \<noteq> [] \<and>
   length (filter (\<lambda>r. album_id r = Some ''A1'')
     (merge_albums
        [rel ''A1'' ''Formula'' (Some ''2021-11-12'') 17 ''T'', rel ''A2'' ''Old'' (Some ''2020'') 8 ''T'']
        [rel ''A1'' ''Formula (dup)'' (Some ''2021-11-12'') 17 ''T'',
         rel ''S1'' ''Extra'' (Some ''2021-11-12'') 6 ''T'', rel ''S2'' ''Undated'' None 5 ''T''])) = 1 \<and>
   (rel ''A1'' ''Formula'' (Some ''2021-11-12'') 17 ''T'')\<lparr>discovery_method := Some ''official''\<rparr>
     \<in> set (merge_albums
        [rel ''A1'' ''Formula'' (Some ''2021-11-12'') 17 ''T'', rel ''A2'' ''Old'' (Some ''2020'') 8 ''T'']
        [rel ''A1'' ''Formula (dup)'' (Some ''2021-11-12'') 17 ''T'',
         rel ''S1'' ''Extra'' (Some ''2021-11-12'') 6 ''T'', rel ''S2'' ''Undated'' None 5 ''T''])"
proof -
  let ?a = "rel ''A1'' ''Formula'' (Some ''2021-11-12'') 17 ''T''"
  let ?A = "[?a, rel ''A2'' ''Old'' (Some ''2020'') 8 ''T'']"
  have h1: "?a \<in> set ?A" by simp
  have h2: "album_id ?a = Some ''A1''" by (simp add: rel_def)
  have h3: "''A1'' \<noteq> []" by simp
  have h4: "\<forall>b \<in> set ?A. album_id b = Some ''A1'' \<longrightarrow> b = ?a" by (simp add: rel_def)
  from merge_albums_authoritative [OF h1 h2 h3] h4 h1 h2 h3 show ?thesis by blast
qed

text \<open>
  The claim as stated (every item of \<open>A\<close> is kept) fails for an item that has no id: the
  guard \<open>if album_id\<close> drops it.
\<close>

theorem merge_albums_drops_item_without_id:
  "merge_albums [(rel ''A1'' ''Formula'' (Some ''2021-11-12'') 17 ''T'')\<lparr>album_id := None\<rparr>] [] = []"
  by (simp add: merge_albums_def unique_albums_def add_official_def truthy_id_def rel_def
      sort_reverse_def)

subsection \<open>Order of the merged result\<close>

text \<open>How date strings of different precision compare.\<close>

lemma partial_dates_order:
  "''2020-12-31'' < ''2021'' \<and> ''2020'' < ''2020-05'' \<and> ''2020-05'' < ''2020-05-01'' \<and>
   [] < ''1999''"
  by simp

text \<open>
  The chronological reading of a date string. A well-formed date is \<open>YYYY\<close>, \<open>YYYY-MM\<close>,
  \<open>YYYY-MM-DD\<close> or missing (the empty key); \<open>date_value\<close> reads it as the number
  \<open>YYYYMMDD\<close>, a part that is not given counting as \<open>00\<close>. On well-formed dates the order of
  the strings, which the sort uses, agrees with the order of these numbers.
\<close>

definition digit_val :: "char \<Rightarrow> nat" where
  "digit_val c = (case map_of (zip ''0123456789'' [0, 1, 2, 3, 4, 5, 6, 7, 8, 9]) c of
                    Some n \<Rightarrow> n | None \<Rightarrow> 0)"

primrec dec :: "string \<Rightarrow> nat" where
  "dec [] = 0"
| "dec (c # cs) = digit_val c * 10 ^ length cs + dec cs"

definition is_date :: "string \<Rightarrow> bool" where
  "is_date s = (map (\<lambda>c. if is_digit c then CHR ''0'' else c) s
                  \<in> set [[], ''0000'', ''0000-00'', ''0000-00-00''])"

definition key8 :: "string \<Rightarrow> string" where
  "key8 s = filter is_digit (s @ drop (length s) ''0000-00-00'')"

definition date_value :: "string \<Rightarrow> nat" where
  "date_value s = dec (key8 s)"

lemma digit_code: "is_digit c \<Longrightarrow> of_char c = 48 + digit_val c"
  by (auto simp: is_digit_def digit_val_def)

lemma digit_order:
  assumes "is_digit a" "is_digit b"
  shows "(a < b \<longleftrightarrow> digit_val a < digit_val b) \<and> (a = b \<longleftrightarrow> digit_val a = digit_val b)"
proof -
  have "a = b \<longleftrightarrow> (of_char a :: nat) = of_char b" by auto
  then show ?thesis
    using digit_code [OF assms(1)] digit_code [OF assms(2)] by (simp add: less_char_def)
qed

lemma digit_val_bound: "digit_val c \<le> 9"
  by (simp add: digit_val_def split: option.splits)

lemma dec_bound: "dec xs < 10 ^ length xs"
proof (induction xs)
  case Nil
  show ?case by simp
next
  case (Cons c cs)
  have "digit_val c * 10 ^ length cs + dec cs < 9 * 10 ^ length cs + 10 ^ length cs"
    using Cons digit_val_bound [of c] by (intro add_le_less_mono mult_le_mono1) auto
  then show ?case by simp
qed

lemma lex_dec:
  "length xs = length ys \<Longrightarrow> list_all is_digit xs \<Longrightarrow> list_all is_digit ys \<Longrightarrow>
   xs \<le> ys \<Longrightarrow> dec xs \<le> dec ys"
proof (induction xs ys rule: list_induct2)
  case Nil
  show ?case by simp
next
  case (Cons x xs y ys)
  from Cons.prems have d: "is_digit x" "is_digit y" by simp_all
  from Cons.prems(3) have "x < y \<or> (x = y \<and> xs \<le> ys)" by simp
  then show ?case
  proof
    assume "x < y"
    then have "digit_val x + 1 \<le> digit_val y" using digit_order [OF d] by simp
    then have "(digit_val x + 1) * 10 ^ length xs \<le> digit_val y * 10 ^ length ys"
      using Cons.hyps by (intro mult_le_mono) auto
    moreover have "dec xs < 10 ^ length xs" by (rule dec_bound)
    ultimately show ?thesis by (simp add: algebra_simps)
  next
    assume "x = y \<and> xs \<le> ys"
    then show ?thesis using Cons by simp
  qed
qed

lemma shape_digit: "(if is_digit c then CHR ''0'' else c) = CHR ''0'' \<longleftrightarrow> is_digit c"
  by (auto simp: is_digit_def)

lemma shape_dash: "(if is_digit c then CHR ''0'' else c) = CHR ''-'' \<longleftrightarrow> c = CHR ''-''"
  by (auto simp: is_digit_def)

lemma dash_not_digit: "\<not> is_digit CHR ''-''"
  by (simp add: is_digit_def)

lemma zero_digit: "is_digit CHR ''0''"
  by (simp add: is_digit_def)

lemma zero_le_digit: "is_digit c \<Longrightarrow> CHR ''0'' = c \<or> CHR ''0'' < c"
  using digit_order [OF zero_digit, of c] by (auto simp: digit_val_def)

lemma is_date_cases:
  assumes "is_date s"
  shows "s = [] \<or>
    (\<exists>a b c d. s = [a, b, c, d] \<and> is_digit a \<and> is_digit b \<and> is_digit c \<and> is_digit d) \<or>
    (\<exists>a b c d e f. s = [a, b, c, d, CHR ''-'', e, f] \<and> is_digit a \<and> is_digit b \<and> is_digit c \<and>
       is_digit d \<and> is_digit e \<and> is_digit f) \<or>
    (\<exists>a b c d e f g h. s = [a, b, c, d, CHR ''-'', e, f, CHR ''-'', g, h] \<and> is_digit a \<and>
       is_digit b \<and> is_digit c \<and> is_digit d \<and> is_digit e \<and> is_digit f \<and> is_digit g \<and> is_digit h)"
  using assms unfolding is_date_def
  by (auto simp: map_eq_Cons_conv shape_digit shape_dash simp del: if_split split del: if_split)

lemma key8_props:
  assumes "is_date s"
  shows "length (key8 s) = 8 \<and> list_all is_digit (key8 s)"
  using is_date_cases [OF assms]
  by (elim disjE exE conjE) (simp_all add: key8_def dash_not_digit zero_digit)

lemma key8_mono:
  assumes "is_date s" "is_date t" "s \<le> t"
  shows "key8 s \<le> key8 t"
  using is_date_cases [OF assms(1)] is_date_cases [OF assms(2)] assms(3)
  apply (elim disjE exE conjE)
                 apply (simp_all add: key8_def dash_not_digit zero_digit)
          apply (use zero_le_digit in blast)+
  done

lemma date_value_mono:
  assumes "is_date s" "is_date t" "s \<le> t"
  shows "date_value s \<le> date_value t"
  unfolding date_value_def
  using key8_props [OF assms(1)] key8_props [OF assms(2)] key8_mono [OF assms]
  by (intro lex_dec) simp_all

lemma merge_albums_entries:
  assumes "r \<in> set (merge_albums A S)"
  shows "\<exists>a \<in> set (A @ S). \<exists>m. r = a\<lparr>discovery_method := m\<rparr>"
proof -
  from assms have "r \<in> snd ` set (unique_albums A S)"
    by (simp add: merge_albums_def set_sort_reverse)
  then show ?thesis using unique_albums_entries [of A S] by (fastforce simp: entries_from_def)
qed

lemma date_value_examples:
  "date_value ''2021-11-12'' = 20211112 \<and> date_value ''2020-05'' = 20200500 \<and>
   date_value ''2020'' = 20200000 \<and> date_value [] = 0"
  by (simp add: date_value_def key8_def is_digit_def digit_val_def)

text \<open>The order of the merged list, read on the sort key and position by position.\<close>

lemma merge_albums_desc:
  assumes "i < j" "j < length (merge_albums A S)"
  shows "date_key (merge_albums A S ! j) \<le> date_key (merge_albums A S ! i)"
proof -
  have "sorted_wrt (\<lambda>x y. date_key y \<le> date_key x) (merge_albums A S)"
    unfolding merge_albums_def by (rule sorted_desc_sort_reverse)
  then show ?thesis using assms by (simp add: sorted_wrt_iff_nth_less)
qed

lemma merge_albums_ties:
  assumes "i < j" "j < length (merge_albums A S)"
    and "date_key (merge_albums A S ! i) = date_key (merge_albums A S ! j)"
    and "discovery_method (merge_albums A S ! i) = Some ''search''"
  shows "discovery_method (merge_albums A S ! j) = Some ''search''"
proof -
  have "sorted_wrt (\<lambda>x y. date_key y < date_key x \<or>
                  (date_key x = date_key y \<and>
                   (discovery_method x = Some ''search'' \<longrightarrow> discovery_method y = Some ''search'')))
          (merge_albums A S)"
    unfolding merge_albums_def using officials_first by (rule sort_reverse_ties)
  then have "date_key (merge_albums A S ! j) < date_key (merge_albums A S ! i) \<or>
     (date_key (merge_albums A S ! i) = date_key (merge_albums A S ! j) \<and>
      (discovery_method (merge_albums A S ! i) = Some ''search'' \<longrightarrow>
       discovery_method (merge_albums A S ! j) = Some ''search''))"
    using assms(1,2) by (simp add: sorted_wrt_iff_nth_less)
  then show ?thesis using assms(3,4) by auto
qed

lemma filter_filter_weaker:
  "(\<And>x. P x \<Longrightarrow> Q x) \<Longrightarrow> filter P (filter Q xs) = filter P xs"
  by (induction xs) auto

lemma merge_albums_stable:
  "filter (\<lambda>r. release_date r = k) (merge_albums A S) =
   filter (\<lambda>r. release_date r = k) (map snd (unique_albums A S))"
proof -
  let ?key = "case k of None \<Rightarrow> [] | Some d \<Rightarrow> d"
  let ?P = "\<lambda>r. release_date r = k"
  let ?Q = "\<lambda>r. date_key r = ?key"
  let ?U = "map snd (unique_albums A S)"
  have w: "filter ?P (filter ?Q xs) = filter ?P xs" for xs
    by (rule filter_filter_weaker) (auto simp: date_key_def)
  have "filter ?P (merge_albums A S) = filter ?P (filter ?Q (merge_albums A S))"
    by (rule w [symmetric])
  also have "filter ?Q (merge_albums A S) = filter ?Q ?U"
    unfolding merge_albums_def by (rule filter_sort_reverse)
  also have "filter ?P (filter ?Q ?U) = filter ?P ?U" by (rule w)
  finally show ?thesis .
qed

text \<open>
  C8. The merged result is in descending order of the field \<open>release_date\<close> (the ISO form
  \<open>YYYY\<close>, \<open>YYYY-MM\<close> or \<open>YYYY-MM-DD\<close>, compared as text): of two records with a date,
  the earlier one in the list has the greater or the same date; after a record without
  date come only records without date (or with an empty one); of two records with the same
  date, a search record never stands before an official one, and the records of one date
  keep the order in which they were inserted. When every release given has a well-formed
  date or none, the order is also chronological, newest first, a year alone or a year and
  month counting as the start of that period.
\<close>

theorem merge_albums_order:
  "(\<forall>i j d e. i < j \<and> j < length (merge_albums A S) \<and>
       release_date (merge_albums A S ! i) = Some d \<and> release_date (merge_albums A S ! j) = Some e \<longrightarrow>
       e \<le> d) \<and>
   (\<forall>i j. i < j \<and> j < length (merge_albums A S) \<and> release_date (merge_albums A S ! i) = None \<longrightarrow>
       release_date (merge_albums A S ! j) = None \<or> release_date (merge_albums A S ! j) = Some []) \<and>
   (\<forall>i j. i < j \<and> j < length (merge_albums A S) \<and>
       release_date (merge_albums A S ! i) = release_date (merge_albums A S ! j) \<and>
       discovery_method (merge_albums A S ! i) = Some ''search'' \<longrightarrow>
       discovery_method (merge_albums A S ! j) = Some ''search'') \<and>
   (\<forall>k. filter (\<lambda>r. release_date r = k) (merge_albums A S) =
        filter (\<lambda>r. release_date r = k) (map snd (unique_albums A S))) \<and>
   ((\<forall>a \<in> set (A @ S). \<forall>d. release_date a = Some d \<longrightarrow> is_date d) \<longrightarrow>
    (\<forall>i j d e. i < j \<and> j < length (merge_albums A S) \<and>
       release_date (merge_albums A S ! i) = Some d \<and> release_date (merge_albums A S ! j) = Some e \<longrightarrow>
       date_value e \<le> date_value d))"
proof -
  let ?m = "merge_albums A S"
  have 1: "e \<le> d"
    if "i < j" "j < length ?m" "release_date (?m ! i) = Some d" "release_date (?m ! j) = Some e"
    for i j d e
    using merge_albums_desc [OF that(1,2)] that(3,4) by (simp add: date_key_def)
  have 2: "release_date (?m ! j) = None \<or> release_date (?m ! j) = Some []"
    if "i < j" "j < length ?m" "release_date (?m ! i) = None" for i j
    using merge_albums_desc [OF that(1,2)] that(3) by (simp add: date_key_def split: option.splits)
  have 3: "discovery_method (?m ! j) = Some ''search''"
    if "i < j" "j < length ?m" "release_date (?m ! i) = release_date (?m ! j)"
       "discovery_method (?m ! i) = Some ''search''" for i j
  proof -
    from that(3) have "date_key (?m ! i) = date_key (?m ! j)" by (simp add: date_key_def)
    from merge_albums_ties [OF that(1,2) this that(4)] show ?thesis .
  qed
  have 5: "date_value e \<le> date_value d"
    if wf: "\<forall>a \<in> set (A @ S). \<forall>d. release_date a = Some d \<longrightarrow> is_date d"
      and ij: "i < j" "j < length ?m"
      and di: "release_date (?m ! i) = Some d" and dj: "release_date (?m ! j) = Some e"
    for i j d e
  proof -
    have dated: "is_date x" if "r \<in> set ?m" "release_date r = Some x" for r x
    proof -
      from merge_albums_entries [OF that(1)] obtain a m where
        a: "a \<in> set (A @ S)" and r: "r = a\<lparr>discovery_method := m\<rparr>" by blast
      from r that(2) have "release_date a = Some x" by simp
      with wf a show ?thesis by blast
    qed
    have "?m ! i \<in> set ?m" "?m ! j \<in> set ?m" using ij by simp_all
    then have "is_date e" "is_date d" using dated di dj by blast+
    moreover have "e \<le> d" using ij di dj by (rule 1)
    ultimately show ?thesis by (rule date_value_mono)
  qed
  have c1: "\<forall>i j d e. i < j \<and> j < length ?m \<and>
       release_date (?m ! i) = Some d \<and> release_date (?m ! j) = Some e \<longrightarrow> e \<le> d"
    using 1 by blast
  have c2: "\<forall>i j. i < j \<and> j < length ?m \<and> release_date (?m ! i) = None \<longrightarrow>
       release_date (?m ! j) = None \<or> release_date (?m ! j) = Some []"
    using 2 by blast
  have c3: "\<forall>i j. i < j \<and> j < length ?m \<and>
       release_date (?m ! i) = release_date (?m ! j) \<and>
       discovery_method (?m ! i) = Some ''search'' \<longrightarrow>
       discovery_method (?m ! j) = Some ''search''"
    using 3 by blast
  have c4: "\<forall>k. filter (\<lambda>r. release_date r = k) ?m =
        filter (\<lambda>r. release_date r = k) (map snd (unique_albums A S))"
    using merge_albums_stable by blast
  have c5: "(\<forall>a \<in> set (A @ S). \<forall>d. release_date a = Some d \<longrightarrow> is_date d) \<longrightarrow>
    (\<forall>i j d e. i < j \<and> j < length ?m \<and>
       release_date (?m ! i) = Some d \<and> release_date (?m ! j) = Some e \<longrightarrow>
       date_value e \<le> date_value d)"
    using 5 by blast
  show ?thesis by (rule conjI [OF c1 conjI [OF c2 conjI [OF c3 conjI [OF c4 c5]]]])
qed

text \<open>
  A merge of lists that are not in date order: the latest release comes last in the search
  list and first in the result.
\<close>

lemma merge_albums_unsorted_sample:
  "merge_albums
     [rel ''A2'' ''Old'' (Some ''2020'') 8 ''T'', rel ''A1'' ''Formula'' (Some ''2021-11-12'') 17 ''T'']
     [rel ''A1'' ''Formula (dup)'' (Some ''2021-11-12'') 17 ''T'',
      rel ''S2'' ''Undated'' None 5 ''T'', rel ''S3'' ''Latest'' (Some ''2022-01'') 5 ''T'',
      rel ''S4'' ''Undated too'' None 5 ''T'']
   = [(rel ''S3'' ''Latest'' (Some ''2022-01'') 5 ''T'')\<lparr>discovery_method := Some ''search''\<rparr>,
      (rel ''A1'' ''Formula'' (Some ''2021-11-12'') 17 ''T'')\<lparr>discovery_method := Some ''official''\<rparr>,
      (rel ''A2'' ''Old'' (Some ''2020'') 8 ''T'')\<lparr>discovery_method := Some ''official''\<rparr>,
      (rel ''S2'' ''Undated'' None 5 ''T'')\<lparr>discovery_method := Some ''search''\<rparr>,
      (rel ''S4'' ''Undated too'' None 5 ''T'')\<lparr>discovery_method := Some ''search''\<rparr>]"
  by (simp add: merge_albums_def unique_albums_def add_official_def add_search_def truthy_id_def
      rel_def sort_reverse_def date_key_def)

theorem merge_albums_order_witness:
  "map album_id (merge_albums
     [rel ''A2'' ''Old'' (Some ''2020'') 8 ''T'', rel ''A1'' ''Formula'' (Some ''2021-11-12'') 17 ''T'']
     [rel ''A1'' ''Formula (dup)'' (Some ''2021-11-12'') 17 ''T'',
      rel ''S2'' ''Undated'' None 5 ''T'', rel ''S3'' ''Latest'' (Some ''2022-01'') 5 ''T'',
      rel ''S4'' ''Undated too'' None 5 ''T''])
   = [Some ''S3'', Some ''A1'', Some ''A2'', Some ''S2'', Some ''S4''] \<and>
   release_date (merge_albums
     [rel ''A2'' ''Old'' (Some ''2020'') 8 ''T'', rel ''A1'' ''Formula'' (Some ''2021-11-12'') 17 ''T'']
     [rel ''A1'' ''Formula (dup)'' (Some ''2021-11-12'') 17 ''T'',
      rel ''S2'' ''Undated'' None 5 ''T'', rel ''S3'' ''Latest'' (Some ''2022-01'') 5 ''T'',
      rel ''S4'' ''Undated too'' None 5 ''T''] ! 0) = Some ''2022-01'' \<and>
   release_date (merge_albums
     [rel ''A2'' ''Old'' (Some ''2020'') 8 ''T'', rel ''A1'' ''Formula'' (Some ''2021-11-12'') 17 ''T'']
     [rel ''A1'' ''Formula (dup)'' (Some ''2021-11-12'') 17 ''T'',
      rel ''S2'' ''Undated'' None 5 ''T'', rel ''S3'' ''Latest'' (Some ''2022-01'') 5 ''T'',
      rel ''S4'' ''Undated too'' None 5 ''T''] ! 1) = Some ''2021-11-12'' \<and>
   ''2021-11-12'' \<le> ''2022-01'' \<and>
   date_value ''2021-11-12'' \<le> date_value ''2022-01'' \<and>
   release_date (merge_albums
     [rel ''A2'' ''Old'' (Some ''2020'') 8 ''T'', rel ''A1'' ''Formula'' (Some ''2021-11-12'') 17 ''T'']
     [rel ''A1'' ''Formula (dup)'' (Some ''2021-11-12'') 17 ''T'',
      rel ''S2'' ''Undated'' None 5 ''T'', rel ''S3'' ''Latest'' (Some ''2022-01'') 5 ''T'',
      rel ''S4'' ''Undated too'' None 5 ''T''] ! 3) = None \<and>
   (release_date (merge_albums
     [rel ''A2'' ''Old'' (Some ''2020'') 8 ''T'', rel ''A1'' ''Formula'' (Some ''2021-11-12'') 17 ''T'']
     [rel ''A1'' ''Formula (dup)'' (Some ''2021-11-12'') 17 ''T'',
      rel ''S2'' ''Undated'' None 5 ''T'', rel ''S3'' ''Latest'' (Some ''2022-01'') 5 ''T'',
      rel ''S4'' ''Undated too'' None 5 ''T''] ! 4) = None \<or>
    release_date (merge_albums
     [rel ''A2'' ''Old'' (Some ''2020'') 8 ''T'', rel ''A1'' ''Formula'' (Some ''2021-11-12'') 17 ''T'']
     [rel ''A1'' ''Formula (dup)'' (Some ''2021-11-12'') 17 ''T'',
      rel ''S2'' ''Undated'' None 5 ''T'', rel ''S3'' ''Latest'' (Some ''2022-01'') 5 ''T'',
      rel ''S4'' ''Undated too'' None 5 ''T''] ! 4) = Some [])"
proof -
  let ?A = "[rel ''A2'' ''Old'' (Some ''2020'') 8 ''T'', rel ''A1'' ''Formula'' (Some ''2021-11-12'') 17 ''T'']"
  let ?S = "[rel ''A1'' ''Formula (dup)'' (Some ''2021-11-12'') 17 ''T'',
      rel ''S2'' ''Undated'' None 5 ''T'', rel ''S3'' ''Latest'' (Some ''2022-01'') 5 ''T'',
      rel ''S4'' ''Undated too'' None 5 ''T'']"
  let ?m = "merge_albums ?A ?S"
  note m = merge_albums_unsorted_sample
  note t = merge_albums_order [of ?A ?S]
  have ids: "map album_id ?m = [Some ''S3'', Some ''A1'', Some ''A2'', Some ''S2'', Some ''S4'']"
    unfolding m by (simp add: rel_def)
  have len: "length ?m = 5" unfolding m by simp
  have d0: "release_date (?m ! 0) = Some ''2022-01''" unfolding m by (simp add: rel_def)
  have d1: "release_date (?m ! 1) = Some ''2021-11-12''" unfolding m by (simp add: rel_def)
  have d3: "release_date (?m ! 3) = None" unfolding m by (simp add: rel_def)
  have wf: "\<forall>a \<in> set (?A @ ?S). \<forall>d. release_date a = Some d \<longrightarrow> is_date d"
    by (simp add: rel_def is_date_def is_digit_def)
  note r1 = t [THEN conjunct1, rule_format]
  note r2 = t [THEN conjunct2, THEN conjunct1, rule_format]
  note r5 = t [THEN conjunct2, THEN conjunct2, THEN conjunct2, THEN conjunct2, rule_format]
  have c1: "''2021-11-12'' \<le> ''2022-01''" using r1 [of 0 1 "''2022-01''" "''2021-11-12''"] d0 d1 len by simp
  have c5: "date_value ''2021-11-12'' \<le> date_value ''2022-01''"
  proof (rule r5)
    show "\<And>a d. a \<in> set (?A @ ?S) \<Longrightarrow> release_date a = Some d \<Longrightarrow> is_date d"
      using wf by blast
    show "(0::nat) < 1 \<and> 1 < length ?m \<and> release_date (?m ! 0) = Some ''2022-01'' \<and>
          release_date (?m ! 1) = Some ''2021-11-12''"
      using d0 d1 len by simp
  qed
  have c2: "release_date (?m ! 4) = None \<or> release_date (?m ! 4) = Some []"
    using r2 [of 3 4] d3 len by simp
  show ?thesis
    by (rule conjI [OF ids conjI [OF d0 conjI [OF d1 conjI [OF c1 conjI [OF c5 conjI [OF d3 c2]]]]]])
qed

subsection \<open>Search releases in the reconciled result\<close>

definition page_albums :: "page \<Rightarrow> album list" where
  "page_albums p = (case p of Page code hdr albums tot \<Rightarrow> albums | PageFailed \<Rightarrow> [])"

lemma page_albums_simps:
  "page_albums (Page code hdr albums tot) = albums" "page_albums PageFailed = []"
  by (simp_all add: page_albums_def)

lemma search_loop_filtered:
  "search_loop sid pages offset acc = Some r \<Longrightarrow> a \<in> set r \<Longrightarrow>
   a \<in> set acc \<or>
   (a \<in> set (concat (map page_albums pages)) \<and> is_valid_spotify_release a \<and>
    verify_album_belongs_to_artist a sid)"
proof (induction sid pages offset acc rule: search_loop.induct)
  case (1 sid offset all_albums)
  then show ?case by simp
next
  case (2 sid ps offset all_albums)
  then show ?case by (simp split: if_splits)
next
  case (3 sid code hdr albums tot ps offset all_albums)
  let ?valid = "filter (\<lambda>a. is_valid_spotify_release a \<and> verify_album_belongs_to_artist a sid) albums"
  from "3.prems"(1) consider
      (stop) "r = all_albums \<or> r = all_albums @ ?valid"
    | (rec) "length all_albums < max_results" "code = 200" "albums \<noteq> []"
        "\<not> (length ?valid = 0 \<and> offset > 100)"
        "\<not> (int (offset + page_limit) \<ge> tot \<or> length albums < page_limit)"
        "search_loop sid ps (offset + page_limit) (all_albums @ ?valid) = Some r"
    by (auto simp: Let_def split: if_splits)
  then show ?case
  proof cases
    case stop
    then show ?thesis using "3.prems"(2) by (auto simp: page_albums_simps)
  next
    case rec
    from "3.IH" [OF rec(1) rec(2) rec(3) refl refl rec(4) rec(5) rec(6) "3.prems"(2)]
    show ?thesis by (auto simp: page_albums_simps)
  qed
qed

lemma get_search_albums_filtered:
  assumes "a \<in> set (get_search_albums sid pages)"
  shows "a \<in> set (concat (map page_albums pages)) \<and> is_valid_spotify_release a \<and>
         verify_album_belongs_to_artist a sid"
proof (cases "search_loop sid pages 0 []")
  case None
  then show ?thesis using assms by (simp add: get_search_albums_def)
next
  case (Some r)
  with assms have "a \<in> set r" by (simp add: get_search_albums_def)
  from search_loop_filtered [OF Some this] show ?thesis by simp
qed

lemma keys_add_search_mono: "fst ` set d \<subseteq> fst ` set (add_search a d)"
  by (cases "truthy_id a") (auto simp: add_search_def dom_update)

lemma add_search_cases:
  assumes "(k, v) \<in> set (add_search a d)"
  shows "(k, v) \<in> set d \<or>
         (v = a\<lparr>discovery_method := Some ''search''\<rparr> \<and> truthy_id a = Some k \<and> k \<notin> fst ` set d)"
proof (cases "truthy_id a")
  case None
  then show ?thesis using assms by (simp add: add_search_def)
next
  case (Some i)
  show ?thesis
  proof (cases "i \<in> fst ` set d")
    case True
    then show ?thesis using assms Some by (auto simp: add_search_def)
  next
    case False
    then have "add_search a d = d @ [(i, a\<lparr>discovery_method := Some ''search''\<rparr>)]"
      using Some update_absent [of i d] by (auto simp: add_search_def)
    then have "(k, v) \<in> set d \<or> (k, v) = (i, a\<lparr>discovery_method := Some ''search''\<rparr>)"
      using assms by auto
    then show ?thesis using Some False by blast
  qed
qed

lemma fold_search_provenance:
  "(k, v) \<in> set (fold add_search S d) \<Longrightarrow>
   (k, v) \<in> set d \<or>
   (\<exists>a \<in> set S. v = a\<lparr>discovery_method := Some ''search''\<rparr> \<and> truthy_id a = Some k \<and>
                  k \<notin> fst ` set d)"
proof (induction S arbitrary: d)
  case Nil
  then show ?case by simp
next
  case (Cons b S)
  from Cons.IH [of "add_search b d"] Cons.prems
  have "(k, v) \<in> set (add_search b d) \<or>
        (\<exists>a \<in> set S. v = a\<lparr>discovery_method := Some ''search''\<rparr> \<and> truthy_id a = Some k \<and>
                       k \<notin> fst ` set (add_search b d))"
    by simp
  then show ?case
  proof
    assume "(k, v) \<in> set (add_search b d)"
    from add_search_cases [OF this] show ?thesis by auto
  next
    assume "\<exists>a \<in> set S. v = a\<lparr>discovery_method := Some ''search''\<rparr> \<and> truthy_id a = Some k \<and>
                       k \<notin> fst ` set (add_search b d)"
    then obtain a where "a \<in> set S" "v = a\<lparr>discovery_method := Some ''search''\<rparr>"
      "truthy_id a = Some k" "k \<notin> fst ` set (add_search b d)" by blast
    moreover have "k \<notin> fst ` set d" using calculation(4) keys_add_search_mono [of d b] by blast
    ultimately show ?thesis by auto
  qed
qed


lemma official_loop_filtered:
  "official_loop pages acc = Some r \<Longrightarrow> a \<in> set r \<Longrightarrow>
   a \<in> set acc \<or> (a \<in> set (concat (map page_albums pages)) \<and> is_valid_spotify_release a)"
proof (induction pages acc rule: official_loop.induct)
  case (1 all_albums)
  then show ?case by simp
next
  case (2 ps all_albums)
  then show ?case by simp
next
  case (3 code hdr albums tot ps all_albums)
  let ?valid = "filter is_valid_spotify_release albums"
  from "3.prems"(1) consider
      (stop) "r = all_albums \<or> r = all_albums @ ?valid"
    | (rec) "code = 200" "albums \<noteq> []" "\<not> length albums < page_limit"
        "official_loop ps (all_albums @ ?valid) = Some r"
    by (auto simp: Let_def split: if_splits)
  then show ?case
  proof cases
    case stop
    then show ?thesis using "3.prems"(2) by (auto simp: page_albums_simps)
  next
    case rec
    from "3.IH" [OF rec(1) rec(2) refl rec(3) rec(4) "3.prems"(2)]
    show ?thesis by (auto simp: page_albums_simps)
  qed
qed

text \<open>
  C4 (as amended). A record of the reconciled result that is tagged \<open>search\<close> comes from an
  item of a search page that passed the release filter and the ownership check, and whose
  non-empty id is not the id of any album of the authoritative listing. The ownership
  check asks that some credited artist of the release, not only the first one, has the
  group's provider id; a search release none of whose credited artists has it is excluded.
\<close>

theorem search_record_provenance:
  assumes "r \<in> set (get_albums_by_artist_id token_ok official_pages search_pages sid)"
    and "discovery_method r = Some ''search''"
  shows "\<exists>a i. a \<in> set (concat (map page_albums search_pages)) \<and>
           r = a\<lparr>discovery_method := Some ''search''\<rparr> \<and>
           is_valid_spotify_release a \<and>
           (\<exists>c \<in> set (album_artists a). (case artist_id c of None \<Rightarrow> [] | Some ci \<Rightarrow> ci) = sid) \<and>
           album_id a = Some i \<and> i \<noteq> [] \<and>
           (\<forall>b \<in> set (get_official_albums official_pages). album_id b \<noteq> Some i)"
proof -
  let ?A = "get_official_albums official_pages"
  let ?S = "get_search_albums sid search_pages"
  let ?D = "fold add_official ?A []"
  from assms(1) have "r \<in> snd ` set (unique_albums ?A ?S)"
    by (auto simp: get_albums_by_artist_id_def merge_albums_def set_sort_reverse split: if_splits)
  then obtain k where kv: "(k, r) \<in> set (fold add_search ?S ?D)"
    by (auto simp: unique_albums_def)
  have od: "official_dict ?D" by (rule official_dict_fold) (simp add: official_dict_def)
  have "(k, r) \<notin> set ?D"
  proof
    assume "(k, r) \<in> set ?D"
    then have "discovery_method r = Some ''official''" using od by (auto simp: official_dict_def)
    then show False using assms(2) by simp
  qed
  with fold_search_provenance [OF kv] obtain a where
    a: "a \<in> set ?S" "r = a\<lparr>discovery_method := Some ''search''\<rparr>" "truthy_id a = Some k"
       "k \<notin> fst ` set ?D"
    by blast
  have "\<forall>b \<in> set ?A. album_id b \<noteq> Some k"
  proof
    fix b assume "b \<in> set ?A"
    show "album_id b \<noteq> Some k"
    proof
      assume "album_id b = Some k"
      then have "truthy_id b = Some k" using a(3) by (simp add: truthy_id_Some)
      then have "k \<in> fst ` set ?D" using \<open>b \<in> set ?A\<close> keys_fold_official [of ?A "[]"] by auto
      then show False using a(4) by simp
    qed
  qed
  moreover from get_search_albums_filtered [OF a(1)]
  have "a \<in> set (concat (map page_albums search_pages))" "is_valid_spotify_release a"
    "verify_album_belongs_to_artist a sid" by simp_all
  moreover have "album_id a = Some k \<and> k \<noteq> []" using a(3) by (simp add: truthy_id_Some)
  ultimately show ?thesis using a(2) unfolding verify_album_belongs_to_artist_def by blast
qed

theorem search_record_provenance_witness:
  "(rel ''S1'' ''Extra'' (Some ''2021-11-12'') 6 ''T'')\<lparr>discovery_method := Some ''search''\<rparr>
     \<in> set (get_albums_by_artist_id True
          [Page 200 Absent [rel ''A1'' ''Formula'' (Some ''2021-11-12'') 17 ''T''] 1]
          [Page 200 Absent [rel ''A1'' ''Formula'' (Some ''2021-11-12'') 17 ''T'',
                            rel ''S1'' ''Extra'' (Some ''2021-11-12'') 6 ''T'',
                            rel ''S4'' ''Foreign'' (Some ''2022'') 9 ''O''] 3] ''T'') \<and>
   discovery_method ((rel ''S1'' ''Extra'' (Some ''2021-11-12'') 6 ''T'')\<lparr>discovery_method := Some ''search''\<rparr>)
     = Some ''search'' \<and>
   (\<exists>a i. a \<in> set (concat (map page_albums
          [Page 200 Absent [rel ''A1'' ''Formula'' (Some ''2021-11-12'') 17 ''T'',
                            rel ''S1'' ''Extra'' (Some ''2021-11-12'') 6 ''T'',
                            rel ''S4'' ''Foreign'' (Some ''2022'') 9 ''O''] 3])) \<and>
      (rel ''S1'' ''Extra'' (Some ''2021-11-12'') 6 ''T'')\<lparr>discovery_method := Some ''search''\<rparr>
        = a\<lparr>discovery_method := Some ''search''\<rparr> \<and>
      is_valid_spotify_release a \<and>
      (\<exists>c \<in> set (album_artists a). (case artist_id c of None \<Rightarrow> [] | Some ci \<Rightarrow> ci) = ''T'') \<and>
      album_id a = Some i \<and> i \<noteq> [] \<and>
      (\<forall>b \<in> set (get_official_albums
          [Page 200 Absent [rel ''A1'' ''Formula'' (Some ''2021-11-12'') 17 ''T''] 1]).
         album_id b \<noteq> Some i))"
proof -
  let ?r = "(rel ''S1'' ''Extra'' (Some ''2021-11-12'') 6 ''T'')\<lparr>discovery_method := Some ''search''\<rparr>"
  have h1: "?r \<in> set (get_albums_by_artist_id True
          [Page 200 Absent [rel ''A1'' ''Formula'' (Some ''2021-11-12'') 17 ''T''] 1]
          [Page 200 Absent [rel ''A1'' ''Formula'' (Some ''2021-11-12'') 17 ''T'',
                            rel ''S1'' ''Extra'' (Some ''2021-11-12'') 6 ''T'',
                            rel ''S4'' ''Foreign'' (Some ''2022'') 9 ''O''] 3] ''T'')"
    by (simp add: get_albums_by_artist_id_def get_official_albums_def get_search_albums_def
        max_results_def page_limit_def is_valid_spotify_release_def cleaner_suspect_exact_def
        cleaner_suspect_substrings_def verify_album_belongs_to_artist_def merge_albums_def
        unique_albums_def add_official_def add_search_def truthy_id_def sort_reverse_def
        date_key_def rel_def lower_def lower_char_def strip_def is_space_def)
  have h2: "discovery_method ?r = Some ''search''" by simp
  from search_record_provenance [OF h1 h2] h1 h2 show ?thesis by blast
qed

text \<open>
  The claim as stated fails: a search release whose first credited artist is another
  artist, and which credits the group second, passes the ownership check and is part of
  the result.
\<close>

theorem search_release_of_secondary_artist_kept:
  "\<not> is_primary_artist_album
       ((rel ''S9'' ''Collab'' (Some ''2022'') 5 ''O'')\<lparr>album_artists :=
          [\<lparr>artist_id = Some ''O'', artist_name = ''Other''\<rparr>,
           \<lparr>artist_id = Some ''T'', artist_name = ''TWICE''\<rparr>]\<rparr>) ''T'' \<and>
   get_albums_by_artist_id True [] [Page 200 Absent
       [(rel ''S9'' ''Collab'' (Some ''2022'') 5 ''O'')\<lparr>album_artists :=
          [\<lparr>artist_id = Some ''O'', artist_name = ''Other''\<rparr>,
           \<lparr>artist_id = Some ''T'', artist_name = ''TWICE''\<rparr>]\<rparr>] 1] ''T''
   = [(rel ''S9'' ''Collab'' (Some ''2022'') 5 ''O'')\<lparr>album_artists :=
          [\<lparr>artist_id = Some ''O'', artist_name = ''Other''\<rparr>,
           \<lparr>artist_id = Some ''T'', artist_name = ''TWICE''\<rparr>],
        discovery_method := Some ''search''\<rparr>]"
  by (simp add: is_primary_artist_album_def get_albums_by_artist_id_def get_official_albums_def
      get_search_albums_def max_results_def page_limit_def is_valid_spotify_release_def
      cleaner_suspect_exact_def cleaner_suspect_substrings_def verify_album_belongs_to_artist_def
      merge_albums_def unique_albums_def add_official_def add_search_def truthy_id_def
      sort_reverse_def rel_def lower_def lower_char_def strip_def is_space_def)

section \<open>Properties of the hybrid collector\<close>

subsection \<open>The listing by id\<close>

text \<open>
  An answer after which the loop of \<open>search_albums_by_artist_id\<close> goes round again: a full
  page, or a rate limit that asks for at most 60 seconds. The listing returns exactly when
  some answer is of another kind.
\<close>

definition asks_again :: "page \<Rightarrow> bool" where
  "asks_again p =
     (case p of
        PageFailed \<Rightarrow> False
      | Page code hdr albums tot \<Rightarrow>
          (code = 200 \<and> albums \<noteq> [] \<and> \<not> length albums < page_limit) \<or>
          (code = 429 \<and> (case hdr of Absent \<Rightarrow> True | Numeric k \<Rightarrow> 0 \<le> k \<and> k \<le> 60
                                    | Malformed \<Rightarrow> False)))"

lemma listing_iteration_stops:
  "\<not> asks_again p \<Longrightarrow> listing_iteration aid p acc \<noteq> Continue acc'"
  by (auto simp: asks_again_def listing_iteration_def Let_def split: page.splits header.splits if_splits)

lemma listing_iteration_continues:
  "asks_again p \<Longrightarrow> \<exists>acc'. listing_iteration aid p acc = Continue acc'"
  by (auto simp: asks_again_def listing_iteration_def Let_def split: page.splits header.splits)

lemma id_listing_loop_stop:
  assumes "\<not> asks_again (api n)"
  shows "\<exists>r. id_listing_loop aid api n acc = Some r"
proof (cases "listing_iteration aid (api n) acc")
  case (Break r)
  then show ?thesis by (subst id_listing_loop.simps) simp
next
  case (Continue acc')
  then show ?thesis using listing_iteration_stops [OF assms] by blast
next
  case Raise
  then show ?thesis by (subst id_listing_loop.simps) simp
qed

lemma id_listing_loop_returns:
  "\<not> asks_again (api (n + m)) \<Longrightarrow> \<exists>r. id_listing_loop aid api n acc = Some r"
proof (induction m arbitrary: n acc)
  case 0
  then show ?case using id_listing_loop_stop [of api n aid acc] by simp
next
  case (Suc m)
  show ?case
  proof (cases "asks_again (api n)")
    case False
    then show ?thesis by (rule id_listing_loop_stop)
  next
    case True
    from listing_iteration_continues [OF True, of aid acc] obtain acc' where
      "listing_iteration aid (api n) acc = Continue acc'" by blast
    then have "id_listing_loop aid api n acc = id_listing_loop aid api (n + 1) acc'"
      by (subst id_listing_loop.simps) simp
    moreover from Suc.prems have "\<not> asks_again (api ((n + 1) + m))" by simp
    from Suc.IH [OF this, of acc'] obtain r where "id_listing_loop aid api (n + 1) acc' = Some r"
      by blast
    ultimately show ?thesis by simp
  qed
qed

lemma id_listing_loop_stops_somewhere:
  assumes "id_listing_loop aid api n acc = Some r"
  shows "\<exists>k. \<not> asks_again (api k)"
  using assms
proof (rule id_listing_loop.raw_induct [rotated, where P = "\<lambda>aid api n acc r. \<exists>k. \<not> asks_again (api k)"])
  fix f :: "string \<Rightarrow> (nat \<Rightarrow> page) \<Rightarrow> nat \<Rightarrow> album list \<Rightarrow> album list option"
    and aid :: string and api :: "nat \<Rightarrow> page" and n :: nat and acc r :: "album list"
  assume IH: "\<And>aid api n acc r. f aid api n acc = Some r \<Longrightarrow> \<exists>k. \<not> asks_again (api k)"
  assume step: "(case listing_iteration aid (api n) acc of
                   Break r \<Rightarrow> Some r
                 | Continue all_albums' \<Rightarrow> f aid api (n + 1) all_albums'
                 | Raise \<Rightarrow> Some []) = Some r"
  show "\<exists>k. \<not> asks_again (api k)"
  proof (cases "asks_again (api n)")
    case False
    then show ?thesis by blast
  next
    case True
    from listing_iteration_continues [OF True, of aid acc] obtain acc' where
      "listing_iteration aid (api n) acc = Continue acc'" by blast
    with step have "f aid api (n + 1) acc' = Some r" by simp
    then show ?thesis by (rule IH)
  qed
qed

lemma id_listing_loop_forever:
  "\<forall>k. asks_again (api k) \<Longrightarrow> id_listing_loop aid api n acc = None"
  using id_listing_loop_stops_somewhere [of aid api n acc] by (cases "id_listing_loop aid api n acc") auto

lemma id_listing_loop_filtered:
  assumes "id_listing_loop aid api n acc = Some r"
  shows "\<forall>a \<in> set r. a \<in> set acc \<or> (is_primary_artist_album a aid \<and> is_valid_release_simple a)"
  using assms
proof (rule id_listing_loop.raw_induct [rotated, where P = "\<lambda>aid api n acc r.
        \<forall>a \<in> set r. a \<in> set acc \<or> (is_primary_artist_album a aid \<and> is_valid_release_simple a)"])
  fix f :: "string \<Rightarrow> (nat \<Rightarrow> page) \<Rightarrow> nat \<Rightarrow> album list \<Rightarrow> album list option"
    and aid :: string and api :: "nat \<Rightarrow> page" and n :: nat and acc r :: "album list"
  assume IH: "\<And>aid api n acc r. f aid api n acc = Some r \<Longrightarrow>
        \<forall>a \<in> set r. a \<in> set acc \<or> (is_primary_artist_album a aid \<and> is_valid_release_simple a)"
  let ?valid = "\<lambda>albums. filter (\<lambda>a. is_primary_artist_album a aid \<and> is_valid_release_simple a) albums"
  assume step: "(case listing_iteration aid (api n) acc of
                   Break r \<Rightarrow> Some r
                 | Continue all_albums' \<Rightarrow> f aid api (n + 1) all_albums'
                 | Raise \<Rightarrow> Some []) = Some r"
  have shape: "\<And>x. listing_iteration aid (api n) acc = Break x \<or>
                    listing_iteration aid (api n) acc = Continue x \<Longrightarrow>
               x = acc \<or> (\<exists>albums. x = acc @ ?valid albums)"
    by (auto simp: listing_iteration_def Let_def split: page.splits header.splits if_splits)
  show "\<forall>a \<in> set r. a \<in> set acc \<or> (is_primary_artist_album a aid \<and> is_valid_release_simple a)"
  proof (cases "listing_iteration aid (api n) acc")
    case (Break x)
    with step have "r = x" by simp
    with shape [of x] Break show ?thesis by auto
  next
    case (Continue x)
    with step have "f aid api (n + 1) x = Some r" by simp
    from IH [OF this] shape [of x] Continue show ?thesis by auto
  next
    case Raise
    with step show ?thesis by simp
  qed
qed

lemma search_albums_by_artist_id_filtered:
  assumes "search_albums_by_artist_id token_ok api aid = Some r" and "a \<in> set r"
  shows "is_primary_artist_album a aid \<and> is_valid_release_simple a"
proof (cases token_ok)
  case False
  then show ?thesis using assms by (simp add: search_albums_by_artist_id_def)
next
  case True
  then have "id_listing_loop aid api 0 [] = Some r"
    using assms(1) by (simp add: search_albums_by_artist_id_def)
  from id_listing_loop_filtered [OF this] assms(2) show ?thesis by simp
qed

subsection \<open>Release kinds\<close>

lemma name_search_loop_keeps: "name_search_loop nm pages offset acc = Some r \<Longrightarrow> r = acc"
  by (induction nm pages offset acc rule: name_search_loop.induct) (auto split: if_splits)

lemma search_albums_by_artist_empty: "search_albums_by_artist token_ok pages nm = []"
proof (cases "name_search_loop nm pages 0 []")
  case None
  then show ?thesis by (simp add: search_albums_by_artist_def)
next
  case (Some r)
  then have "r = []" by (rule name_search_loop_keeps)
  then show ?thesis using Some by (simp add: search_albums_by_artist_def)
qed

lemma valid_release_simple_tracks: "is_valid_release_simple r \<Longrightarrow> 4 \<le> total_tracks r"
  by (simp add: is_valid_release_simple_def split: if_splits)

definition kind_ok :: "nat \<times> halbum \<Rightarrow> bool" where
  "kind_ok d = (4 \<le> ha_totalTracks (snd d) \<and>
                ha_albumType (snd d) = (if 8 \<le> ha_totalTracks (snd d) then ''album'' else ''ep''))"

lemma set_replace_one: "set (replace_one i d coll) \<subseteq> insert (i, d) (set coll)"
  using set_update_subset [of i d coll] by (auto simp: replace_one_def)

lemma save_or_update_album_kind:
  assumes "save_or_update_album db_ok now document coll = (ok, act, coll')"
    and "4 \<le> ha_totalTracks document"
    and "ha_albumType document = (if 8 \<le> ha_totalTracks document then ''album'' else ''ep'')"
    and "d \<in> set coll'"
  shows "d \<in> set coll \<or> kind_ok d"
proof (cases "db_ok")
  case False
  then show ?thesis using assms by (simp add: save_or_update_album_def)
next
  case True
  show ?thesis
  proof (cases "find (album_matches document) coll")
    case None
    then have "coll' = coll @ [(fresh_id coll, document)]"
      using assms(1) True by (simp add: save_or_update_album_def)
    then show ?thesis using assms(2,3,4) by (auto simp: kind_ok_def)
  next
    case (Some existing)
    let ?doc = "document\<lparr>
                   ha_createdAt := Some (case ha_createdAt (snd existing) of None \<Rightarrow> now | Some c \<Rightarrow> c),
                   ha_updatedAt := Some now\<rparr>"
    have "coll' = replace_one (fst existing) ?doc coll"
      using assms(1) True Some by (simp add: save_or_update_album_def Let_def)
    then have "d = (fst existing, ?doc) \<or> d \<in> set coll"
      using assms(4) set_replace_one [of "fst existing" ?doc coll] by blast
    then show ?thesis using assms(2,3) by (auto simp: kind_ok_def)
  qed
qed

lemma save_albums_kind:
  assumes "\<forall>a \<in> set albums. 4 \<le> total_tracks a"
    and "\<forall>d \<in> set coll. d \<in> set coll0 \<or> kind_ok d"
    and "d \<in> set (snd (save_albums strptime now gd albums db (stats, coll)))"
  shows "d \<in> set coll0 \<or> kind_ok d"
  using assms
proof (induction albums arbitrary: db stats coll)
  case Nil
  then show ?case by simp
next
  case (Cons a as)
  let ?doc = "create_album_document strptime now a gd"
  obtain ok act coll' where s: "save_or_update_album (case db of [] \<Rightarrow> True | b # bs \<Rightarrow> b) now ?doc coll
          = (ok, act, coll')"
    by (cases "save_or_update_album (case db of [] \<Rightarrow> True | b # bs \<Rightarrow> b) now ?doc coll") auto
  have t: "4 \<le> ha_totalTracks ?doc" using Cons.prems(1) by (simp add: create_album_document_def)
  have k: "ha_albumType ?doc = (if 8 \<le> ha_totalTracks ?doc then ''album'' else ''ep'')"
    using t by (simp add: create_album_document_def final_album_type_def)
  have inv: "\<forall>d \<in> set coll'. d \<in> set coll0 \<or> kind_ok d"
  proof
    fix x assume "x \<in> set coll'"
    from save_or_update_album_kind [OF s t k this] Cons.prems(2) show "x \<in> set coll0 \<or> kind_ok x"
      by blast
  qed
  from Cons.prems(3) s obtain stats' where
    "d \<in> set (snd (save_albums strptime now gd as (tl db) (stats', coll')))"
    by simp
  from Cons.IH [OF _ inv this] Cons.prems(1) show ?case by simp
qed

text \<open>The releases a unit of phase 2 harvests, when its listing returns.\<close>

definition harvested :: "unit_env \<Rightarrow> 'p hgroup \<Rightarrow> album list option" where
  "harvested env g =
     (case hg_spotifyId g of
        None \<Rightarrow> Some (search_albums_by_artist (unit_token_ok env) (unit_pages env) (hg_name g))
      | Some spotify_id \<Rightarrow>
          if spotify_id \<noteq> []
          then search_albums_by_artist_id (unit_token_ok env) (unit_listing env) spotify_id
          else Some (search_albums_by_artist (unit_token_ok env) (unit_pages env) (hg_name g)))"

lemma process_existing_harvested:
  "process_existing_group_albums strptime now env g coll =
     (case harvested env (snd g) of
        None \<Rightarrow> None
      | Some albums \<Rightarrow>
          Some (save_albums strptime now (fst g, hg_name (snd g)) albums (unit_db env)
                  (\<lparr>albums_discovered = length albums, albums_created = 0, albums_updated = 0,
                    albums_failed = 0\<rparr>, coll)))"
  by (simp add: process_existing_group_albums_def harvested_def)

lemma harvested_tracks:
  assumes "harvested env g = Some albums" and "a \<in> set albums"
  shows "4 \<le> total_tracks a"
proof -
  have "is_valid_release_simple a"
    using assms search_albums_by_artist_id_filtered [of "unit_token_ok env" "unit_listing env" _ albums a]
    by (auto simp: harvested_def search_albums_by_artist_empty split: option.splits if_splits)
  then show ?thesis by (rule valid_release_simple_tracks)
qed

lemma process_existing_kind:
  assumes "process_existing_group_albums strptime now env g coll = Some (st, coll')"
    and "d \<in> set coll'"
  shows "d \<in> set coll \<or> kind_ok d"
proof -
  from assms(1) obtain albums where h: "harvested env (snd g) = Some albums"
    and s: "save_albums strptime now (fst g, hg_name (snd g)) albums (unit_db env)
              (\<lparr>albums_discovered = length albums, albums_created = 0, albums_updated = 0,
                albums_failed = 0\<rparr>, coll) = (st, coll')"
    by (auto simp: process_existing_harvested split: option.splits)
  have "\<forall>a \<in> set albums. 4 \<le> total_tracks a" using harvested_tracks [OF h] by blast
  moreover have "\<forall>d \<in> set coll. d \<in> set coll \<or> kind_ok d" by simp
  moreover have "d \<in> set (snd (save_albums strptime now (fst g, hg_name (snd g)) albums (unit_db env)
              (\<lparr>albums_discovered = length albums, albums_created = 0, albums_updated = 0,
                albums_failed = 0\<rparr>, coll)))"
    using s assms(2) by simp
  ultimately show ?thesis by (rule save_albums_kind)
qed

text \<open>A write that the store accepts puts the document into the collection.\<close>

lemma in_set_update: "(k, v) \<in> set (AList.update k v al)"
  by (induction al) auto

lemma save_or_update_album_stores:
  "\<exists>act coll1 i c u.
     save_or_update_album True now document coll = (True, act, coll1) \<and>
     (i, document\<lparr>ha_createdAt := c, ha_updatedAt := u\<rparr>) \<in> set coll1"
proof (cases "find (album_matches document) coll")
  case None
  then have "save_or_update_album True now document coll
             = (True, Created, coll @ [(fresh_id coll, document)])"
    by (simp add: save_or_update_album_def)
  moreover have "document\<lparr>ha_createdAt := ha_createdAt document, ha_updatedAt := ha_updatedAt document\<rparr>
                 = document" by simp
  moreover have "(fresh_id coll, document) \<in> set (coll @ [(fresh_id coll, document)])" by simp
  ultimately show ?thesis by metis
next
  case (Some existing)
  let ?doc = "document\<lparr>
                 ha_createdAt := Some (case ha_createdAt (snd existing) of None \<Rightarrow> now | Some c \<Rightarrow> c),
                 ha_updatedAt := Some now\<rparr>"
  from Some have "existing \<in> set coll" by (auto simp: find_Some_iff)
  then have "fst existing \<in> set (map fst coll)" by auto
  then have "save_or_update_album True now document coll
        = (True, Updated, AList.update (fst existing) ?doc coll)"
    using Some by (simp add: save_or_update_album_def Let_def replace_one_def)
  then show ?thesis using in_set_update [of "fst existing" ?doc coll] by blast
qed

lemma release_write_stores:
  "\<exists>act coll1 i d.
     save_or_update_album True now (create_album_document strptime now a gd) coll = (True, act, coll1) \<and>
     (i, d) \<in> set coll1 \<and>
     ha_spotifyId d = Some (case album_id a of None \<Rightarrow> [] | Some x \<Rightarrow> x) \<and>
     ha_name d = strip (album_name a) \<and>
     ha_totalTracks d = total_tracks a \<and>
     ha_albumType d = final_album_type (total_tracks a)"
proof -
  let ?doc = "create_album_document strptime now a gd"
  from save_or_update_album_stores [of now ?doc coll] obtain act coll1 i c u where
    "save_or_update_album True now ?doc coll = (True, act, coll1)"
    "(i, ?doc\<lparr>ha_createdAt := c, ha_updatedAt := u\<rparr>) \<in> set coll1"
    by blast
  moreover have "ha_spotifyId (?doc\<lparr>ha_createdAt := c, ha_updatedAt := u\<rparr>)
                   = Some (case album_id a of None \<Rightarrow> [] | Some x \<Rightarrow> x)"
    "ha_name (?doc\<lparr>ha_createdAt := c, ha_updatedAt := u\<rparr>) = strip (album_name a)"
    "ha_totalTracks (?doc\<lparr>ha_createdAt := c, ha_updatedAt := u\<rparr>) = total_tracks a"
    "ha_albumType (?doc\<lparr>ha_createdAt := c, ha_updatedAt := u\<rparr>) = final_album_type (total_tracks a)"
    by (simp_all add: create_album_document_def)
  ultimately show ?thesis by blast
qed

text \<open>
  The cleaner's path: every album document it adds to the collection comes from a release
  of one of the two listings that passed \<open>is_valid_spotify_release\<close>, and carries the track
  count and the \<open>album_type\<close> of that release.
\<close>

lemma get_official_albums_filtered:
  assumes "a \<in> set (get_official_albums pages)"
  shows "a \<in> set (concat (map page_albums pages)) \<and> is_valid_spotify_release a"
proof (cases "official_loop pages []")
  case None
  then show ?thesis using assms by (simp add: get_official_albums_def)
next
  case (Some r)
  with assms have "a \<in> set r" by (simp add: get_official_albums_def)
  from official_loop_filtered [OF Some this] show ?thesis by simp
qed

lemma cleaner_albums_from_pages:
  assumes "r \<in> set (get_albums_by_artist_id token_ok official_pages search_pages sid)"
  shows "\<exists>a \<in> set (concat (map page_albums (official_pages @ search_pages))).
           is_valid_spotify_release a \<and> (\<exists>m. r = a\<lparr>discovery_method := m\<rparr>)"
proof -
  from assms have "r \<in> set (merge_albums (get_official_albums official_pages)
                                (get_search_albums sid search_pages))"
    by (simp add: get_albums_by_artist_id_def split: if_splits)
  from merge_albums_entries [OF this] obtain a m where
    a: "a \<in> set (get_official_albums official_pages) \<or> a \<in> set (get_search_albums sid search_pages)"
    and r: "r = a\<lparr>discovery_method := m\<rparr>"
    by auto
  from a have "a \<in> set (concat (map page_albums (official_pages @ search_pages))) \<and>
               is_valid_spotify_release a"
    using get_official_albums_filtered [of a official_pages]
      get_search_albums_filtered [of a sid search_pages] by auto
  with r show ?thesis by blast
qed

lemma clean_albums_kind:
  assumes "d \<in> set (fst (snd (clean_albums_for_group now token_ok env token_ok2 official_pages
                                 search_pages (g, stored))))"
  shows "d \<in> set stored \<or>
         (\<exists>a \<in> set (concat (map page_albums (official_pages @ search_pages))).
            is_valid_spotify_release a \<and> 1 \<le> total_tracks a \<and>
            ca_totalTracks d = total_tracks a \<and>
            ca_albumType d = (case album_type a of None \<Rightarrow> ''album'' | Some t \<Rightarrow> t))"
proof (cases "d \<in> set stored")
  case True
  then show ?thesis by simp
next
  case False
  with assms obtain sid r where
    r: "r \<in> set (get_albums_by_artist_id token_ok2 official_pages search_pages sid)"
    and d: "d = cleaner_create_album_document now r g"
    by (auto simp: clean_albums_for_group_def Let_def split: option.splits prod.splits if_splits)
  from cleaner_albums_from_pages [OF r] obtain a m where
    a: "a \<in> set (concat (map page_albums (official_pages @ search_pages)))"
       "is_valid_spotify_release a" "r = a\<lparr>discovery_method := m\<rparr>"
    by blast
  have "1 \<le> total_tracks a" using a(2) by (simp add: is_valid_spotify_release_def split: if_splits)
  moreover have "ca_totalTracks d = total_tracks a"
    "ca_albumType d = (case album_type a of None \<Rightarrow> ''album'' | Some t \<Rightarrow> t)"
    using d a(3) by (simp_all add: cleaner_create_album_document_def)
  ultimately show ?thesis using a(1,2) by blast
qed

text \<open>
  The filter of the cleaner looks for its patterns in the lowercased name, also when the
  name is written in capitals with an accented letter: the first sample below, of 12
  tracks, has the capital E with an acute accent (its two UTF-8 bytes) and is rejected for
  the pattern \<open>hits ann..es\<close>, as the second, of 10 tracks, is for \<open>best of\<close>.
\<close>

lemma cleaner_filter_rejects_by_name:
  "\<not> is_valid_spotify_release
       (rel ''A9'' (''HITS ANN'' @ [CHR 0xC3, CHR 0x89] @ ''ES 80'') (Some ''2020'') 12 ''T'') \<and>
   \<not> is_valid_spotify_release (rel ''B1'' ''Best Of TWICE'' (Some ''2020'') 10 ''T'')"
  by (simp add: is_valid_spotify_release_def rel_def cleaner_suspect_exact_def
      cleaner_suspect_substrings_def lower_def lower_char_def lower_latin1_def
      latin1_capitals_def latin1_smalls_def strip_def is_space_def)

text \<open>
  C5 (as amended). In the harvesting path of the hybrid collector
  (\<open>process_existing_group_albums\<close>), whenever the pass returns, every document of the album
  collection was there before or has at least 4 tracks and the kind derived from its track
  count, \<open>album\<close> from 8 tracks and \<open>ep\<close> from 4 to 7: no release of 3 tracks is persisted.
  A release that passes the release filter and whose write the store accepts is put into
  the collection with its track count and that kind. In the cleaner's path
  (\<open>clean_albums_for_group\<close>) every document added comes from a listed release that passed
  the cleaner's filter, which asks for one track at least, and its kind is the
  \<open>album_type\<close> the provider gave, \<open>album\<close> when it gave none, whatever the track count.
\<close>

theorem stored_release_kind:
  "(\<forall>st coll' d.
      process_existing_group_albums strptime now env g coll = Some (st, coll') \<and> d \<in> set coll' \<longrightarrow>
      d \<in> set coll \<or>
      (4 \<le> ha_totalTracks (snd d) \<and>
       ha_albumType (snd d) = (if 8 \<le> ha_totalTracks (snd d) then ''album'' else ''ep''))) \<and>
   (is_valid_release_simple a \<longrightarrow>
      (\<exists>act coll1 i d.
         save_or_update_album True now (create_album_document strptime now a gd) coll = (True, act, coll1) \<and>
         (i, d) \<in> set coll1 \<and>
         ha_spotifyId d = Some (case album_id a of None \<Rightarrow> [] | Some x \<Rightarrow> x) \<and>
         ha_totalTracks d = total_tracks a \<and>
         ha_albumType d = (if 8 \<le> total_tracks a then ''album'' else ''ep''))) \<and>
   (\<forall>c \<in> set (fst (snd (clean_albums_for_group cnow token_ok venv token_ok2 official_pages
                            search_pages (cg, stored)))).
      c \<in> set stored \<or>
      (\<exists>r \<in> set (concat (map page_albums (official_pages @ search_pages))).
         is_valid_spotify_release r \<and> 1 \<le> total_tracks r \<and>
         ca_totalTracks c = total_tracks r \<and>
         ca_albumType c = (case album_type r of None \<Rightarrow> ''album'' | Some t \<Rightarrow> t)))"
proof -
  have 1: "d \<in> set coll \<or>
      (4 \<le> ha_totalTracks (snd d) \<and>
       ha_albumType (snd d) = (if 8 \<le> ha_totalTracks (snd d) then ''album'' else ''ep''))"
    if "process_existing_group_albums strptime now env g coll = Some (st, coll')" "d \<in> set coll'"
    for st coll' d
    using process_existing_kind [OF that] by (simp add: kind_ok_def)
  have 2: "\<exists>act coll1 i d.
         save_or_update_album True now (create_album_document strptime now a gd) coll = (True, act, coll1) \<and>
         (i, d) \<in> set coll1 \<and>
         ha_spotifyId d = Some (case album_id a of None \<Rightarrow> [] | Some x \<Rightarrow> x) \<and>
         ha_totalTracks d = total_tracks a \<and>
         ha_albumType d = (if 8 \<le> total_tracks a then ''album'' else ''ep'')"
    if v: "is_valid_release_simple a"
  proof -
    have "final_album_type (total_tracks a) = (if 8 \<le> total_tracks a then ''album'' else ''ep'')"
      using valid_release_simple_tracks [OF v] by (simp add: final_album_type_def)
    with release_write_stores [of now strptime a gd coll] show ?thesis by metis
  qed
  have 3: "c \<in> set stored \<or>
      (\<exists>r \<in> set (concat (map page_albums (official_pages @ search_pages))).
         is_valid_spotify_release r \<and> 1 \<le> total_tracks r \<and>
         ca_totalTracks c = total_tracks r \<and>
         ca_albumType c = (case album_type r of None \<Rightarrow> ''album'' | Some t \<Rightarrow> t))"
    if "c \<in> set (fst (snd (clean_albums_for_group cnow token_ok venv token_ok2 official_pages
                            search_pages (cg, stored))))" for c
    using that by (rule clean_albums_kind)
  from 1 2 3 show ?thesis by blast
qed

text \<open>
  A pass over a listing of three releases, of 8, 6 and 3 tracks, and a refresh by the
  cleaner of a listing with one release of 3 tracks.
\<close>

definition sample_unit :: unit_env where
  "sample_unit =
     \<lparr>unit_token_ok = True, unit_pages = [],
      unit_listing = (\<lambda>n. Page 200 Absent
          [rel ''A1'' ''Formula'' (Some ''2021-11-12'') 8 ''T'',
           rel ''A2'' ''Mini'' (Some ''2020'') 6 ''T'',
           rel ''A3'' ''Single'' (Some ''2019'') 3 ''T''] 3),
      unit_db = []\<rparr>"

definition sample_twice :: "nat \<times> unit hgroup" where
  "sample_twice =
     (1, \<lparr>hg_name = ''TWICE'', hg_spotifyId = Some ''T'', hg_payload = (), hg_createdAt = None,
           hg_updatedAt = None\<rparr>)"

definition sample_cleaner_group :: group where
  "sample_cleaner_group =
     \<lparr>group_id = 1, group_name = ''TWICE'', spotifyId = Some ''7n2Ycct7Beij7Dj7meI4X0'',
      social_spotify = [], isActive = True, rateLimited = None, lastRateLimitedAt = None,
      retryAfter = None, rateLimitReason = None, invalidReason = None, invalidatedAt = None,
      lastValidated = None, group_updatedAt = None\<rparr>"

lemma process_existing_sample:
  "process_existing_group_albums (\<lambda>s. None) 100 sample_unit sample_twice []
   = Some (\<lparr>albums_discovered = 2, albums_created = 2, albums_updated = 0, albums_failed = 0\<rparr>,
      [(1, \<lparr>ha_name = ''Formula'', ha_artistId = 1, ha_artistName = ''TWICE'',
           ha_spotifyId = Some ''A1'', ha_releaseDate = None, ha_totalTracks = 8,
           ha_albumType = ''album'', ha_discoverySource = ''Spotify'', ha_lastScraped = 100,
           ha_createdAt = Some 100, ha_updatedAt = Some 100\<rparr>),
      (2, \<lparr>ha_name = ''Mini'', ha_artistId = 1, ha_artistName = ''TWICE'',
           ha_spotifyId = Some ''A2'', ha_releaseDate = None, ha_totalTracks = 6,
           ha_albumType = ''ep'', ha_discoverySource = ''Spotify'', ha_lastScraped = 100,
           ha_createdAt = Some 100, ha_updatedAt = Some 100\<rparr>)])"
  by (simp add: sample_unit_def sample_twice_def
      process_existing_group_albums_def search_albums_by_artist_id_def id_listing_loop.simps
      listing_iteration_def page_limit_def
      is_primary_artist_album_def is_valid_release_simple_def rel_def lower_def lower_char_def
      strip_def is_space_def karaoke_version_at_def soundtrack_pt_at_def
      original_soundtrack_pt_at_def create_album_document_def parse_release_date_def
      date_key_def final_album_type_def save_or_update_album_def album_matches_def
      name_regex_match_def fresh_id_def)

lemma cleaner_sample:
  "fst (snd (clean_albums_for_group 100 True (\<lambda>n. Response 200 Absent [''k-pop'']) True
      [Page 200 Absent [(rel ''A3'' ''Single'' (Some ''2019'') 3 ''T'')\<lparr>album_type := Some ''single''\<rparr>] 1] []
      (sample_cleaner_group, [])))
   = [\<lparr>ca_name = ''Single'', ca_artistId = 1, ca_artistName = ''TWICE'', ca_spotifyId = ''A3'',
       ca_releaseDate = ''2019'', ca_albumType = ''single'', ca_totalTracks = 3,
       ca_discoveryMethod = ''official'', ca_createdAt = 100, ca_updatedAt = 100\<rparr>]"
  by (simp add: sample_cleaner_group_def clean_albums_for_group_def extract_spotify_id_from_group_def
      validate_kpop_artist_by_id_def max_retries_def has_kpop_genre_def kpop_genres_def
      get_albums_by_artist_id_def get_official_albums_def get_search_albums_def page_limit_def
      is_valid_spotify_release_def cleaner_suspect_exact_def cleaner_suspect_substrings_def
      merge_albums_def unique_albums_def add_official_def truthy_id_def sort_reverse_def
      cleaner_create_album_document_def date_key_def rel_def lower_def lower_char_def strip_def
      is_space_def)

theorem stored_release_kind_witness:
  "process_existing_group_albums (\<lambda>s. None) 100 sample_unit sample_twice [] \<noteq> None \<and>
   length (snd (the (process_existing_group_albums (\<lambda>s. None) 100 sample_unit sample_twice []))) = 2 \<and>
   ha_totalTracks (snd (hd (snd (the (process_existing_group_albums (\<lambda>s. None) 100 sample_unit
      sample_twice []))))) = 8 \<and>
   ha_albumType (snd (hd (snd (the (process_existing_group_albums (\<lambda>s. None) 100 sample_unit
      sample_twice []))))) = ''album'' \<and>
   is_valid_release_simple (rel ''A2'' ''Mini'' (Some ''2020'') 6 ''T'') \<and>
   (\<exists>act coll1 i d.
      save_or_update_album True 100
        (create_album_document (\<lambda>s. None) 100 (rel ''A2'' ''Mini'' (Some ''2020'') 6 ''T'') (1, ''TWICE'')) []
        = (True, act, coll1) \<and>
      (i, d) \<in> set coll1 \<and> ha_spotifyId d = Some ''A2'' \<and> ha_totalTracks d = 6 \<and>
      ha_albumType d = ''ep'') \<and>
   ca_totalTracks (hd (fst (snd (clean_albums_for_group 100 True (\<lambda>n. Response 200 Absent [''k-pop'']) True
      [Page 200 Absent [(rel ''A3'' ''Single'' (Some ''2019'') 3 ''T'')\<lparr>album_type := Some ''single''\<rparr>] 1] []
      (sample_cleaner_group, []))))) = 3 \<and>
   ca_albumType (hd (fst (snd (clean_albums_for_group 100 True (\<lambda>n. Response 200 Absent [''k-pop'']) True
      [Page 200 Absent [(rel ''A3'' ''Single'' (Some ''2019'') 3 ''T'')\<lparr>album_type := Some ''single''\<rparr>] 1] []
      (sample_cleaner_group, []))))) = ''single''"
proof -
  let ?run = "process_existing_group_albums (\<lambda>s. None) 100 sample_unit sample_twice []"
  let ?r6 = "rel ''A2'' ''Mini'' (Some ''2020'') 6 ''T''"
  let ?r3 = "(rel ''A3'' ''Single'' (Some ''2019'') 3 ''T'')\<lparr>album_type := Some ''single''\<rparr>"
  let ?pages = "[Page 200 Absent [?r3] 1]"
  let ?clean = "fst (snd (clean_albums_for_group 100 True (\<lambda>n. Response 200 Absent [''k-pop'']) True
      ?pages [] (sample_cleaner_group, [])))"
  note t = stored_release_kind [of "\<lambda>s. None" 100 sample_unit sample_twice "[]" ?r6 "(1, ''TWICE'')"
      100 True "\<lambda>n. Response 200 Absent [''k-pop'']" True ?pages "[]" sample_cleaner_group "[]"]
  note t1 = t [THEN conjunct1, rule_format]
  note t2 = t [THEN conjunct2, THEN conjunct1, rule_format]
  note t3 = t [THEN conjunct2, THEN conjunct2, rule_format]
  obtain st coll' where run: "?run = Some (st, coll')" and len: "length coll' = 2"
    and tr: "ha_totalTracks (snd (hd coll')) = 8"
    unfolding process_existing_sample by simp
  then have "hd coll' \<in> set coll'" by (intro hd_in_set) auto
  with run have "?run = Some (st, coll') \<and> hd coll' \<in> set coll'" by simp
  from t1 [OF this] tr have a: "ha_albumType (snd (hd coll')) = ''album''" by simp
  have v: "is_valid_release_simple ?r6"
    by (simp add: is_valid_release_simple_def rel_def lower_def lower_char_def strip_def is_space_def
        karaoke_version_at_def soundtrack_pt_at_def original_soundtrack_pt_at_def)
  from t2 [OF v] have b: "\<exists>act coll1 i d.
      save_or_update_album True 100 (create_album_document (\<lambda>s. None) 100 ?r6 (1, ''TWICE'')) []
        = (True, act, coll1) \<and>
      (i, d) \<in> set coll1 \<and> ha_spotifyId d = Some ''A2'' \<and> ha_totalTracks d = 6 \<and>
      ha_albumType d = ''ep''"
    by (simp add: rel_def)
  have ne: "?clean \<noteq> []" and tc: "ca_totalTracks (hd ?clean) = 3"
    unfolding cleaner_sample by simp_all
  then have "hd ?clean \<in> set ?clean" by (intro hd_in_set)
  from t3 [OF this] have c: "ca_albumType (hd ?clean) = ''single''"
    by (simp add: page_albums_simps)
  from run len tr a v b tc c show ?thesis by simp
qed

text \<open>
  The claim as stated fails in the cleaner's path: its release filter asks for one track,
  not four, and the stored kind is the provider's \<open>album_type\<close>. A release of 3 tracks is
  persisted, with kind \<open>single\<close>.
\<close>

theorem cleaner_persists_three_track_release:
  "fst (snd (clean_albums_for_group 100 True (\<lambda>n. Response 200 Absent [''k-pop'']) True
      [Page 200 Absent [(rel ''A3'' ''Single'' (Some ''2019'') 3 ''T'')\<lparr>album_type := Some ''single''\<rparr>] 1] []
      (\<lparr>group_id = 1, group_name = ''TWICE'', spotifyId = Some ''7n2Ycct7Beij7Dj7meI4X0'',
        social_spotify = [], isActive = True, rateLimited = None, lastRateLimitedAt = None,
        retryAfter = None, rateLimitReason = None, invalidReason = None, invalidatedAt = None,
        lastValidated = None, group_updatedAt = None\<rparr>, [])))
   = [\<lparr>ca_name = ''Single'', ca_artistId = 1, ca_artistName = ''TWICE'', ca_spotifyId = ''A3'',
       ca_releaseDate = ''2019'', ca_albumType = ''single'', ca_totalTracks = 3,
       ca_discoveryMethod = ''official'', ca_createdAt = 100, ca_updatedAt = 100\<rparr>]"
  by (simp add: clean_albums_for_group_def extract_spotify_id_from_group_def
      validate_kpop_artist_by_id_def max_retries_def has_kpop_genre_def kpop_genres_def
      get_albums_by_artist_id_def get_official_albums_def get_search_albums_def page_limit_def
      is_valid_spotify_release_def cleaner_suspect_exact_def cleaner_suspect_substrings_def
      merge_albums_def unique_albums_def add_official_def truthy_id_def sort_reverse_def
      cleaner_create_album_document_def date_key_def rel_def lower_def lower_char_def strip_def
      is_space_def)

subsection \<open>The group classifier\<close>

text \<open>Sample artists with the genre \<open>k-pop\<close>.\<close>

definition kartist :: "string \<Rightarrow> string \<Rightarrow> int \<Rightarrow> artist" where
  "kartist i n p = \<lparr>spotify_artist_id = Some i, name = n, artist_genres = [''k-pop''], popularity = p\<rparr>"

text \<open>
  The pattern \<open>^[A-Z]{2,8}$\<close> of \<open>looks_like_kpop_name\<close> is searched in the lowercased
  name, where it never matches.
\<close>

lemma lower_char_not_upper: "\<not> is_upper (lower_char c)"
  by (simp add: is_upper_def lower_char_def split: option.splits)

lemma lower_latin1_not_upper: "\<not> is_upper (lower_latin1 c)"
  by (simp add: is_upper_def lower_latin1_def latin1_capitals_def latin1_smalls_def lower_char_def
      split: option.splits)

lemma lower_from_not_upper: "x \<in> set (lower_from prev s) \<Longrightarrow> \<not> is_upper x"
  by (induction s arbitrary: prev)
     (auto simp: lower_char_not_upper lower_latin1_not_upper split: if_splits)

lemma upper_pattern_never_matches: "\<not> upper_2_8 (lower s)"
proof
  assume u: "upper_2_8 (lower s)"
  define t where "t = (if lower s \<noteq> [] \<and> last (lower s) = CHR 0x0A then butlast (lower s) else lower s)"
  from u have t: "2 \<le> length t" "list_all is_upper t"
    by (simp_all add: upper_2_8_def Let_def t_def)
  then have "t \<noteq> []" by auto
  then have "hd t \<in> set t" by simp
  moreover have "set t \<subseteq> set (lower s)" by (auto simp: t_def dest: in_set_butlastD)
  ultimately have "\<not> is_upper (hd t)" using lower_from_not_upper by (auto simp: lower_def)
  moreover have "is_upper (hd t)" using t(2) \<open>hd t \<in> set t\<close> by (simp add: list_all_iff)
  ultimately show False by simp
qed

text \<open>
  So the name heuristic of the code is the rest of its patterns: a name is never recognised
  by its capitals.
\<close>

lemma looks_like_kpop_name_patterns: "looks_like_kpop_name nm = other_name_patterns nm"
  using upper_pattern_never_matches [of nm]
  by (auto simp: looks_like_kpop_name_def other_name_patterns_def Let_def)

definition plain_artist :: "string \<Rightarrow> string \<Rightarrow> int \<Rightarrow> artist" where
  "plain_artist i n p = \<lparr>spotify_artist_id = Some i, name = n, artist_genres = [], popularity = p\<rparr>"

lemma exo_sample:
  "upper_2_8 ''EXO'' \<and> \<not> other_name_patterns ''EXO'' \<and> other_name_patterns ''TWICE'' \<and>
   upper_2_8 ''TWICE''"
  by (simp add: upper_2_8_def is_upper_def other_name_patterns_def kpop_keywords_def
      girl_boy_at_def digits_kids_at_def xz_at_def boundary_def is_word_def is_word_char_def
      head_of_def word_then_boundary_def is_digit_def lower_def lower_char_def)

text \<open>
  The artist \<open>EXO\<close> without a declared genre and with popularity 80: its name is three
  capital letters, so the rule of the specification accepts it, and the classifier rejects
  it.
\<close>

lemma capitals_not_recognised:
  "spec_group_accept (plain_artist ''E1'' ''EXO'' 80) \<and>
   \<not> is_valid_kpop_spotify_artist (plain_artist ''E1'' ''EXO'' 80)"
proof -
  have "\<not> looks_like_kpop_name ''EXO''"
    using exo_sample by (simp add: looks_like_kpop_name_patterns)
  then have "\<not> is_valid_kpop_spotify_artist (plain_artist ''E1'' ''EXO'' 80)"
    by (simp add: is_valid_kpop_spotify_artist_def plain_artist_def has_korean_genre_def)
  moreover have "spec_group_accept (plain_artist ''E1'' ''EXO'' 80)"
    using exo_sample
    by (simp add: spec_group_accept_def spec_name_heuristic_def plain_artist_def
        has_korean_genre_def label_keywords_def spec_suspect_words_def is_digit_def lower_def
        lower_char_def)
  ultimately show ?thesis by simp
qed

text \<open>
  C7 (as amended). Leave aside the candidates without a declared K-pop or Korean genre
  whose name is written as 2 to 8 capital letters and matches no other part of the name
  heuristic. The classifier accepts any other candidate exactly when: its name is not
  empty and has at least 2 characters once surrounding white space is removed; it has a
  genre containing \<open>k-pop\<close> or \<open>korean\<close>, or a popularity above 30 and a name matching the
  name heuristic (keywords, \<open>girl\<close> or \<open>boy\<close> tokens, digits before \<open>kid\<close> or \<open>teen\<close>,
  2 to 8 capital letters, repeated \<open>x\<close> or \<open>z\<close>); its popularity is at least 5; its
  lowercased name contains no label keyword; and its lowercased name neither starts with a
  digit nor contains one of \<open>soundtrack\<close>, \<open>ost\<close>, \<open>various\<close>, \<open>compilation\<close>, \<open>vol.\<close>,
  \<open>pt.\<close>, \<open>part\<close>.
\<close>

theorem classifier_accepts_iff:
  assumes "upper_2_8 (name a) \<longrightarrow>
             has_korean_genre (artist_genres a) \<or> other_name_patterns (name a)"
  shows "is_valid_kpop_spotify_artist a \<longleftrightarrow>
   (name a \<noteq> [] \<and> 2 \<le> length (strip (name a)) \<and>
    (has_korean_genre (artist_genres a) \<or> (popularity a > 30 \<and> spec_name_heuristic (name a))) \<and>
    5 \<le> popularity a \<and>
    \<not> (\<exists>keyword \<in> set label_keywords. str_in keyword (lower (name a))) \<and>
    \<not> (\<exists>c cs. lower (name a) = c # cs \<and> is_digit c) \<and>
    \<not> (\<exists>w \<in> set [''soundtrack'', ''ost'', ''various'', ''compilation'', ''vol.'', ''pt.'', ''part''].
          str_in w (lower (name a))))"
proof -
  have h: "(has_korean_genre (artist_genres a) \<or> (popularity a > 30 \<and> spec_name_heuristic (name a)))
           = (has_korean_genre (artist_genres a) \<or> (popularity a > 30 \<and> looks_like_kpop_name (name a)))"
    using assms by (auto simp: spec_name_heuristic_def looks_like_kpop_name_patterns)
  show ?thesis
    unfolding h
    by (auto simp: is_valid_kpop_spotify_artist_def suspect_pattern_def suspect_words_def Let_def
        split: list.splits)
qed

theorem classifier_accepts_iff_witness:
  "upper_2_8 (name (plain_artist ''T1'' ''TWICE'' 82)) \<and>
   other_name_patterns (name (plain_artist ''T1'' ''TWICE'' 82)) \<and>
   is_valid_kpop_spotify_artist (plain_artist ''T1'' ''TWICE'' 82) \<and>
   \<not> upper_2_8 (name (kartist ''L1'' ''JYP Entertainment'' 60)) \<and>
   \<not> is_valid_kpop_spotify_artist (kartist ''L1'' ''JYP Entertainment'' 60)"
proof -
  let ?t = "plain_artist ''T1'' ''TWICE'' 82"
  let ?l = "kartist ''L1'' ''JYP Entertainment'' 60"
  have u: "upper_2_8 (name ?t)" and o: "other_name_patterns (name ?t)"
    using exo_sample by (simp_all add: plain_artist_def)
  then have ht: "upper_2_8 (name ?t) \<longrightarrow>
                 has_korean_genre (artist_genres ?t) \<or> other_name_patterns (name ?t)" by simp
  have "spec_name_heuristic (name ?t)" using o by (simp add: spec_name_heuristic_def)
  moreover have "name ?t \<noteq> [] \<and> 2 \<le> length (strip (name ?t)) \<and> popularity ?t > 30 \<and>
        5 \<le> popularity ?t \<and>
        \<not> (\<exists>keyword \<in> set label_keywords. str_in keyword (lower (name ?t))) \<and>
        \<not> (\<exists>c cs. lower (name ?t) = c # cs \<and> is_digit c) \<and>
        \<not> (\<exists>w \<in> set [''soundtrack'', ''ost'', ''various'', ''compilation'', ''vol.'', ''pt.'', ''part''].
              str_in w (lower (name ?t)))"
    by (simp add: plain_artist_def label_keywords_def is_digit_def lower_def lower_char_def strip_def
        is_space_def)
  ultimately have 1: "is_valid_kpop_spotify_artist ?t"
    using classifier_accepts_iff [OF ht] by blast
  have nl: "\<not> upper_2_8 (name ?l)"
    by (simp add: kartist_def upper_2_8_def)
  then have hl: "upper_2_8 (name ?l) \<longrightarrow>
                 has_korean_genre (artist_genres ?l) \<or> other_name_patterns (name ?l)" by simp
  have "\<exists>keyword \<in> set label_keywords. str_in keyword (lower (name ?l))"
    by (simp add: kartist_def label_keywords_def lower_def lower_char_def)
  then have 2: "\<not> is_valid_kpop_spotify_artist ?l"
    using classifier_accepts_iff [OF hl] by blast
  from u o 1 nl 2 show ?thesis by blast
qed

text \<open>
  The claim as stated lists the suspicious patterns without \<open>ost\<close> and \<open>compilation\<close>: the
  artist \<open>GHOST9\<close> (genre \<open>k-pop\<close>, popularity 50) meets every condition the claim lists,
  and the classifier rejects it, because its name contains \<open>ost\<close>.
\<close>

theorem classifier_rejects_ghost9:
  "spec_group_accept (kartist ''G9'' ''GHOST9'' 50) \<and>
   \<not> is_valid_kpop_spotify_artist (kartist ''G9'' ''GHOST9'' 50)"
  by (simp add: spec_group_accept_def is_valid_kpop_spotify_artist_def kartist_def
      has_korean_genre_def label_keywords_def spec_suspect_words_def suspect_pattern_def
      suspect_words_def is_digit_def lower_def lower_char_def strip_def is_space_def)

subsection \<open>Discovery\<close>

text \<open>
  An entry of the discovered list is fresh for the caches \<open>names\<close> and \<open>P\<close> when it is kept
  under its own id, the id is not in \<open>P\<close> and its normalised name is not in \<open>names\<close>. The
  cache of ids only grows during discovery, so freshness for the initial cache is kept by
  every loop.
\<close>

definition fresh_entry :: "string set \<Rightarrow> string set \<Rightarrow> string \<times> artist \<Rightarrow> bool" where
  "fresh_entry names P e =
     (spotify_artist_id (snd e) = Some (fst e) \<and> fst e \<notin> P \<and> strip (lower (name (snd e))) \<notin> names)"

lemma page_new_artists_fresh:
  "page_new_artists names as processed acc = (res, processed') \<Longrightarrow> P \<subseteq> processed \<Longrightarrow>
   \<forall>e \<in> set acc. fresh_entry names P e \<Longrightarrow>
   P \<subseteq> processed' \<and> (\<forall>r. res = Some r \<longrightarrow> (\<forall>e \<in> set r. fresh_entry names P e))"
proof (induction as arbitrary: processed acc)
  case Nil
  then show ?case by auto
next
  case (Cons a as)
  show ?case
  proof (cases "is_valid_kpop_spotify_artist a")
    case False
    then show ?thesis using Cons.IH [of processed acc] Cons.prems by simp
  next
    case True
    show ?thesis
    proof (cases "spotify_artist_id a")
      case None
      then show ?thesis using True Cons.prems by auto
    next
      case (Some i)
      show ?thesis
      proof (cases "i \<notin> processed \<and> strip (lower (name a)) \<notin> names")
        case False
        then show ?thesis using True Some Cons.IH [of processed acc] Cons.prems by auto
      next
        case new: True
        then have "fresh_entry names P (i, a)" using Some Cons.prems(2) by (auto simp: fresh_entry_def)
        then have "\<forall>e \<in> set (acc @ [(i, a)]). fresh_entry names P e" using Cons.prems(3) by auto
        moreover have "P \<subseteq> insert i processed" using Cons.prems(2) by auto
        moreover have "page_new_artists names as (insert i processed) (acc @ [(i, a)]) = (res, processed')"
          using Cons.prems(1) True Some new by simp
        ultimately show ?thesis using Cons.IH [of "insert i processed" "acc @ [(i, a)]"] by blast
      qed
    qed
  qed
qed

lemma discovery_loop_fresh:
  "discovery_loop names pages offset processed acc = (res, processed') \<Longrightarrow> P \<subseteq> processed \<Longrightarrow>
   \<forall>e \<in> set acc. fresh_entry names P e \<Longrightarrow>
   P \<subseteq> processed' \<and> (\<forall>r. res = Some r \<longrightarrow> (\<forall>e \<in> set r. fresh_entry names P e))"
proof (induction names pages offset processed acc rule: discovery_loop.induct)
  case (1 names offset processed all_artists)
  then show ?case by auto
next
  case (2 names ps offset processed all_artists)
  then show ?case by (auto split: if_splits)
next
  case (3 names code artists ps offset processed all_artists)
  show ?case
  proof (cases "offset < search_window \<and> code = 200 \<and> artists \<noteq> []")
    case False
    then show ?thesis using "3.prems" by (auto split: if_splits)
  next
    case True
    obtain pres pr1 where p: "page_new_artists names artists processed [] = (pres, pr1)"
      by (cases "page_new_artists names artists processed []") auto
    from page_new_artists_fresh [OF p "3.prems"(2)]
    have p1: "P \<subseteq> pr1" and p2: "\<forall>r. pres = Some r \<longrightarrow> (\<forall>e \<in> set r. fresh_entry names P e)"
      by auto
    show ?thesis
    proof (cases pres)
      case None
      then show ?thesis using True p p1 "3.prems"(1) by auto
    next
      case (Some new)
      then have acc': "\<forall>e \<in> set (all_artists @ new). fresh_entry names P e"
        using p2 "3.prems"(3) by auto
      show ?thesis
      proof (cases "length artists < page_limit")
        case short: True
        then show ?thesis using True p Some p1 acc' "3.prems"(1) by auto
      next
        case False
        then have "discovery_loop names ps (offset + page_limit) pr1 (all_artists @ new) = (res, processed')"
          using True p Some "3.prems"(1) by simp
        from "3.IH" [OF _ _ _ p [symmetric] _ _ this p1 acc'] True Some False
        show ?thesis by simp
      qed
    qed
  qed
qed


lemma search_discovery_fresh:
  assumes "search_kpop_artists_discovery names answer processed = (xs, processed')"
    and "P \<subseteq> processed"
  shows "P \<subseteq> processed' \<and> (\<forall>e \<in> set xs. fresh_entry names P e)"
proof (cases answer)
  case (Pair token_ok pages)
  show ?thesis
  proof (cases token_ok)
    case False
    then show ?thesis using assms Pair by (simp add: search_kpop_artists_discovery_def)
  next
    case True
    obtain res pr1 where l: "discovery_loop names pages 0 processed [] = (res, pr1)"
      by (cases "discovery_loop names pages 0 processed []") auto
    from discovery_loop_fresh [OF l assms(2)]
    have 1: "P \<subseteq> pr1" and 2: "\<forall>r. res = Some r \<longrightarrow> (\<forall>e \<in> set r. fresh_entry names P e)"
      by auto
    show ?thesis
      using assms(1) Pair True l 1 2
      by (cases res) (auto simp: search_kpop_artists_discovery_def)
  qed
qed

lemma discover_queries_fresh:
  "discover_queries names env qs processed acc = (xs, processed') \<Longrightarrow> P \<subseteq> processed \<Longrightarrow>
   \<forall>e \<in> set acc. fresh_entry names P e \<Longrightarrow> \<forall>e \<in> set xs. fresh_entry names P e"
proof (induction qs arbitrary: processed acc)
  case Nil
  then show ?case by simp
next
  case (Cons q qs)
  obtain ys pr1 where s: "search_kpop_artists_discovery names (env q) processed = (ys, pr1)"
    by (cases "search_kpop_artists_discovery names (env q) processed") auto
  from search_discovery_fresh [OF s Cons.prems(2)]
  have 1: "P \<subseteq> pr1" and 2: "\<forall>e \<in> set ys. fresh_entry names P e" by auto
  have "discover_queries names env qs pr1 (acc @ ys) = (xs, processed')"
    using Cons.prems(1) s by simp
  moreover have "\<forall>e \<in> set (acc @ ys). fresh_entry names P e" using 2 Cons.prems(3) by auto
  ultimately show ?case using Cons.IH [of pr1 "acc @ ys"] 1 by blast
qed

lemma add_unique_keys: "distinct (map fst d) \<Longrightarrow> distinct (map fst (add_unique ia d))"
  by (auto simp: add_unique_def)

lemma add_unique_set: "set (add_unique ia d) \<subseteq> insert ia (set d)"
  by (auto simp: add_unique_def)

lemma fold_add_unique:
  "distinct (map fst d) \<Longrightarrow>
   distinct (map fst (fold add_unique xs d)) \<and> set (fold add_unique xs d) \<subseteq> set xs \<union> set d"
proof (induction xs arbitrary: d)
  case Nil
  then show ?case by simp
next
  case (Cons x xs)
  from Cons.IH [OF add_unique_keys [OF Cons.prems, of x]] add_unique_set [of x d]
  show ?case by auto
qed

lemma distinct_map_sort_reverse:
  "distinct (map g (sort_reverse f xs)) = distinct (map g xs)"
  by (simp add: sort_reverse_def distinct_map)

text \<open>
  C10. The list returned by \<open>discover_new_kpop_artists\<close> has no two artists with the same
  provider id, is in non-increasing order of popularity, and each of its artists has an
  id that was not in the cache of processed ids, and a lowercased, trimmed name that was
  not in the cache of existing names, when discovery started.
\<close>

theorem discover_properties:
  "distinct (map spotify_artist_id (fst (discover_new_kpop_artists names env processed))) \<and>
   sorted_wrt (\<lambda>x y. popularity y \<le> popularity x)
     (fst (discover_new_kpop_artists names env processed)) \<and>
   (\<forall>a \<in> set (fst (discover_new_kpop_artists names env processed)).
      \<exists>i. spotify_artist_id a = Some i \<and> i \<notin> processed \<and> strip (lower (name a)) \<notin> names)"
proof -
  obtain xs pr where q: "discover_queries names env search_queries processed [] = (xs, pr)"
    by (cases "discover_queries names env search_queries processed []") auto
  let ?d = "fold add_unique xs []"
  have res: "fst (discover_new_kpop_artists names env processed) = sort_reverse popularity (map snd ?d)"
    by (simp add: discover_new_kpop_artists_def q)
  have fr: "\<forall>e \<in> set xs. fresh_entry names processed e"
    using discover_queries_fresh [OF q, of processed] by simp
  have d: "distinct (map fst ?d)" "set ?d \<subseteq> set xs"
    using fold_add_unique [of "[]" xs] by auto
  then have frd: "\<forall>e \<in> set ?d. fresh_entry names processed e" using fr by blast
  have ids: "map spotify_artist_id (map snd ?d) = map Some (map fst ?d)"
    using frd by (auto simp: fresh_entry_def)
  have 1: "distinct (map spotify_artist_id (sort_reverse popularity (map snd ?d)))"
  proof -
    have "distinct (map Some (map fst ?d))"
      using d(1) by (subst distinct_map) (auto simp: inj_on_def)
    then show ?thesis unfolding distinct_map_sort_reverse ids .
  qed
  have 2: "sorted_wrt (\<lambda>x y. popularity y \<le> popularity x) (sort_reverse popularity (map snd ?d))"
    by (rule sorted_desc_sort_reverse)
  have 3: "\<exists>i. spotify_artist_id a = Some i \<and> i \<notin> processed \<and> strip (lower (name a)) \<notin> names"
    if "a \<in> set (sort_reverse popularity (map snd ?d))" for a
  proof -
    from that obtain e where "e \<in> set ?d" "a = snd e" by (auto simp: set_sort_reverse)
    then show ?thesis using frd by (auto simp: fresh_entry_def)
  qed
  from 1 2 3 show ?thesis unfolding res by blast
qed

lemma discover_sample:
  "fst (discover_new_kpop_artists {''bts''}
      (\<lambda>q. if q = ''kpop''
           then (True, [ArtistPage 200 [kartist ''I1'' ''ITZY'' 75, kartist ''B1'' ''BTS'' 90,
                                         kartist ''T1'' ''TWICE'' 82, kartist ''G9'' ''GHOST9'' 50,
                                         kartist ''I1'' ''ITZY'' 75]])
           else (True, []))
      {''B1''})
   = [kartist ''T1'' ''TWICE'' 82, kartist ''I1'' ''ITZY'' 75]"
  by (simp add: discover_new_kpop_artists_def search_queries_def search_kpop_artists_discovery_def
      search_window_def page_limit_def is_valid_kpop_spotify_artist_def has_korean_genre_def
      label_keywords_def suspect_pattern_def suspect_words_def is_digit_def kartist_def
      add_unique_def sort_reverse_def lower_def lower_char_def strip_def is_space_def)

theorem discover_properties_witness:
  "fst (discover_new_kpop_artists {''bts''}
      (\<lambda>q. if q = ''kpop''
           then (True, [ArtistPage 200 [kartist ''I1'' ''ITZY'' 75, kartist ''B1'' ''BTS'' 90,
                                         kartist ''T1'' ''TWICE'' 82, kartist ''G9'' ''GHOST9'' 50,
                                         kartist ''I1'' ''ITZY'' 75]])
           else (True, []))
      {''B1''}) \<noteq> [] \<and>
   distinct (map spotify_artist_id (fst (discover_new_kpop_artists {''bts''}
      (\<lambda>q. if q = ''kpop''
           then (True, [ArtistPage 200 [kartist ''I1'' ''ITZY'' 75, kartist ''B1'' ''BTS'' 90,
                                         kartist ''T1'' ''TWICE'' 82, kartist ''G9'' ''GHOST9'' 50,
                                         kartist ''I1'' ''ITZY'' 75]])
           else (True, []))
      {''B1''}))) \<and>
   (\<exists>i. spotify_artist_id (hd (fst (discover_new_kpop_artists {''bts''}
      (\<lambda>q. if q = ''kpop''
           then (True, [ArtistPage 200 [kartist ''I1'' ''ITZY'' 75, kartist ''B1'' ''BTS'' 90,
                                         kartist ''T1'' ''TWICE'' 82, kartist ''G9'' ''GHOST9'' 50,
                                         kartist ''I1'' ''ITZY'' 75]])
           else (True, []))
      {''B1''}))) = Some i \<and> i \<notin> {''B1''})"
proof -
  let ?env = "\<lambda>q. if q = ''kpop''
           then (True, [ArtistPage 200 [kartist ''I1'' ''ITZY'' 75, kartist ''B1'' ''BTS'' 90,
                                         kartist ''T1'' ''TWICE'' 82, kartist ''G9'' ''GHOST9'' 50,
                                         kartist ''I1'' ''ITZY'' 75]])
           else (True, [])"
  let ?r = "fst (discover_new_kpop_artists {''bts''} ?env {''B1''})"
  have ne: "?r \<noteq> []" unfolding discover_sample by simp
  then have "hd ?r \<in> set ?r" by (rule hd_in_set)
  with discover_properties [of "{''bts''}" ?env "{''B1''}"] ne show ?thesis by blast
qed

subsection \<open>The two upserts\<close>

text \<open>
  Facts about a collection with distinct ids: the id given to an inserted document is
  new, a replacement by id changes the one document with that id and keeps its place, and
  the first match of a filter stays the first match when it is replaced by a document that
  matches too.
\<close>

lemma fold_max_ge: "(m::nat) \<le> fold max xs m \<and> (\<forall>x \<in> set xs. x \<le> fold max xs m)"
proof (induction xs arbitrary: m)
  case Nil
  show ?case by simp
next
  case (Cons x xs)
  from Cons [of "max x m"] show ?case by auto
qed

lemma fresh_id_new: "fresh_id coll \<notin> fst ` set coll"
proof
  assume "fresh_id coll \<in> fst ` set coll"
  then have "fresh_id coll \<in> set (map fst coll)" by simp
  then have "fresh_id coll \<le> fold max (map fst coll) 0" using fold_max_ge [of 0 "map fst coll"] by blast
  then show False by (simp add: fresh_id_def)
qed

lemma find_append_new: "find P xs = None \<Longrightarrow> P x \<Longrightarrow> find P (xs @ [x]) = Some x"
  by (induction xs) (auto split: if_splits)

lemma update_as_map:
  "distinct (map fst coll) \<Longrightarrow> i \<in> fst ` set coll \<Longrightarrow>
   AList.update i v coll = map (\<lambda>e. if fst e = i then (i, v) else e) coll"
proof (induction coll)
  case Nil
  then show ?case by simp
next
  case (Cons p coll)
  show ?case
  proof (cases "fst p = i")
    case True
    then have "i \<notin> fst ` set coll" using Cons.prems(1) by auto
    then have "map (\<lambda>e. if fst e = i then (i, v) else e) coll = coll"
      by (induction coll) auto
    then show ?thesis using True by simp
  next
    case False
    then show ?thesis using Cons by auto
  qed
qed

lemma find_after_replace:
  "distinct (map fst coll) \<Longrightarrow> find P coll = Some e \<Longrightarrow> P (fst e, v) \<Longrightarrow>
   find P (map (\<lambda>x. if fst x = fst e then (fst e, v) else x) coll) = Some (fst e, v)"
proof (induction coll)
  case Nil
  then show ?case by simp
next
  case (Cons p coll)
  show ?case
  proof (cases "P p")
    case True
    then have "e = p" using Cons.prems(2) by simp
    then show ?thesis using Cons.prems(3) by simp
  next
    case False
    then have f: "find P coll = Some e" using Cons.prems(2) by simp
    then have "e \<in> set coll" by (auto simp: find_Some_iff)
    then have "fst p \<noteq> fst e" using Cons.prems(1) by force
    then show ?thesis using False f Cons by simp
  qed
qed

lemma find_in_set: "find P xs = Some e \<Longrightarrow> e \<in> set xs \<and> P e"
  by (auto simp: find_Some_iff)

lemma keys_replace_map: "map fst (map (\<lambda>x. if fst x = i then (i, v) else x) coll) = map fst coll"
  by (induction coll) auto

lemma replace_one_as_map:
  "distinct (map fst coll) \<Longrightarrow> i \<in> fst ` set coll \<Longrightarrow>
   replace_one i v coll = map (\<lambda>e. if fst e = i then (i, v) else e) coll"
  using update_as_map [of coll i v] by (auto simp: replace_one_def)

lemma fresh_single_match:
  assumes "find P coll = None" and "i \<notin> fst ` set coll" and "P (i, w)"
  shows "length (filter P (map (\<lambda>e. if fst e = i then (i, w) else e) (coll @ [(i, v)]))) = 1"
proof -
  have "map (\<lambda>e. if fst e = i then (i, w) else e) coll = coll"
    using assms(2) by (intro map_idI) force
  moreover have "filter P coll = []"
    using assms(1) by (auto simp: find_None_iff filter_empty_conv)
  ultimately show ?thesis using assms(3) by simp
qed

lemma album_matches_self: "album_matches adoc (i, adoc\<lparr>ha_createdAt := c, ha_updatedAt := u\<rparr>)"
  by (simp add: album_matches_def)

lemma album_second_write:
  assumes dist: "distinct (map fst albums1)"
    and f: "find (album_matches adoc) albums1 = Some (ai, a1)"
    and c: "ha_createdAt a1 \<noteq> None"
  shows "save_or_update_album True t2 adoc albums1 =
           (True, Updated,
            map (\<lambda>e. if fst e = ai
                      then (ai, adoc\<lparr>ha_createdAt := ha_createdAt a1, ha_updatedAt := Some t2\<rparr>)
                      else e) albums1)"
proof -
  from f have "(ai, a1) \<in> set albums1" by (auto simp: find_Some_iff)
  then have "ai \<in> fst ` set albums1" by force
  moreover from c obtain cr where "ha_createdAt a1 = Some cr" by auto
  ultimately show ?thesis
    using f dist by (simp add: save_or_update_album_def replace_one_as_map Let_def)
qed

lemma album_upsert_twice:
  assumes dist: "distinct (map fst albums)" and t: "t1 \<le> t2"
    and c: "ha_createdAt adoc \<noteq> None" and u: "\<forall>v. ha_updatedAt adoc = Some v \<longrightarrow> v \<le> t1"
    and w1: "save_or_update_album True t1 adoc albums = (ok1, act1, albums1)"
  shows "\<exists>ai a1. find (album_matches adoc) albums1 = Some (ai, a1) \<and>
           length (filter (\<lambda>e. fst e = ai) albums1) = 1 \<and>
           a1 = adoc\<lparr>ha_createdAt := ha_createdAt a1, ha_updatedAt := ha_updatedAt a1\<rparr> \<and>
           (\<forall>v. ha_updatedAt a1 = Some v \<longrightarrow> v \<le> t2) \<and>
           save_or_update_album True t2 adoc albums1 =
             (True, Updated,
              map (\<lambda>e. if fst e = ai
                        then (ai, adoc\<lparr>ha_createdAt := ha_createdAt a1, ha_updatedAt := Some t2\<rparr>)
                        else e) albums1) \<and>
           (find (album_matches adoc) albums = None \<longrightarrow>
              length (filter (album_matches adoc)
                (map (\<lambda>e. if fst e = ai
                          then (ai, adoc\<lparr>ha_createdAt := ha_createdAt a1, ha_updatedAt := Some t2\<rparr>)
                          else e) albums1)) = 1)"
proof (cases "find (album_matches adoc) albums")
  case None
  let ?i = "fresh_id albums"
  have a1: "albums1 = albums @ [(?i, adoc)]"
    using w1 None by (simp add: save_or_update_album_def)
  have m: "album_matches adoc (?i, adoc)" by (simp add: album_matches_def)
  have f: "find (album_matches adoc) albums1 = Some (?i, adoc)"
    unfolding a1 using None m by (rule find_append_new)
  have d1: "distinct (map fst albums1)"
    using dist fresh_id_new [of albums] by (simp add: a1)
  have "?i \<in> fst ` set albums1" by (simp add: a1)
  with d1 have one: "length (filter (\<lambda>e. fst e = ?i) albums1) = 1" by (rule length_filter_key)
  have up: "\<forall>v. ha_updatedAt adoc = Some v \<longrightarrow> v \<le> t2" using u t by auto
  have cnt: "length (filter (album_matches adoc)
        (map (\<lambda>e. if fst e = ?i
                  then (?i, adoc\<lparr>ha_createdAt := ha_createdAt adoc, ha_updatedAt := Some t2\<rparr>)
                  else e) albums1)) = 1"
    unfolding a1 using None fresh_id_new [of albums]
    by (rule fresh_single_match) (rule album_matches_self)
  from album_second_write [OF d1 f c] f one up cnt show ?thesis by auto
next
  case (Some e)
  let ?doc = "adoc\<lparr>ha_createdAt := Some (case ha_createdAt (snd e) of None \<Rightarrow> t1 | Some cr \<Rightarrow> cr),
                    ha_updatedAt := Some t1\<rparr>"
  have ein: "fst e \<in> fst ` set albums" using Some by (auto simp: find_Some_iff)
  have a1: "albums1 = map (\<lambda>x. if fst x = fst e then (fst e, ?doc) else x) albums"
    using w1 Some replace_one_as_map [OF dist ein, of ?doc]
    by (simp add: save_or_update_album_def Let_def)
  have m: "album_matches adoc (fst e, ?doc)" by (rule album_matches_self)
  have f: "find (album_matches adoc) albums1 = Some (fst e, ?doc)"
    unfolding a1 using dist Some m by (rule find_after_replace)
  have d1: "distinct (map fst albums1)" unfolding a1 keys_replace_map by (rule dist)
  have "(fst e, ?doc) \<in> set albums1" using find_in_set [OF f] by simp
  then have "fst (fst e, ?doc) \<in> fst ` set albums1" by (rule imageI)
  then have "fst e \<in> fst ` set albums1" by simp
  with d1 have one: "length (filter (\<lambda>x. fst x = fst e) albums1) = 1" by (rule length_filter_key)
  have c1: "ha_createdAt ?doc \<noteq> None" by simp
  from album_second_write [OF d1 f c1] f one t Some show ?thesis by auto
qed


lemma group_matches_self: "group_matches gdoc (i, gdoc\<lparr>hg_createdAt := c, hg_updatedAt := u\<rparr>)"
  by (simp add: group_matches_def)

lemma group_second_write:
  assumes dist: "distinct (map fst groups1)"
    and f: "find (group_matches gdoc) groups1 = Some (gi, g1)"
    and c: "hg_createdAt g1 \<noteq> None"
  shows "save_or_update_group True t2 gdoc groups1 =
           (True, Updated,
            Some (gi, gdoc\<lparr>hg_createdAt := hg_createdAt g1, hg_updatedAt := Some t2\<rparr>),
            map (\<lambda>e. if fst e = gi
                      then (gi, gdoc\<lparr>hg_createdAt := hg_createdAt g1, hg_updatedAt := Some t2\<rparr>)
                      else e) groups1)"
proof -
  from f have "(gi, g1) \<in> set groups1" by (auto simp: find_Some_iff)
  then have "gi \<in> fst ` set groups1" by force
  moreover from c obtain cr where "hg_createdAt g1 = Some cr" by auto
  ultimately show ?thesis
    using f dist by (simp add: save_or_update_group_def replace_one_as_map Let_def)
qed

lemma group_upsert_twice:
  assumes dist: "distinct (map fst groups)" and t: "t1 \<le> t2"
    and c: "hg_createdAt gdoc \<noteq> None" and u: "\<forall>v. hg_updatedAt gdoc = Some v \<longrightarrow> v \<le> t1"
    and w1: "save_or_update_group True t1 gdoc groups = (ok1, act1, fin1, groups1)"
  shows "\<exists>gi g1. fin1 = Some (gi, g1) \<and>
           find (group_matches gdoc) groups1 = Some (gi, g1) \<and>
           length (filter (\<lambda>e. fst e = gi) groups1) = 1 \<and>
           g1 = gdoc\<lparr>hg_createdAt := hg_createdAt g1, hg_updatedAt := hg_updatedAt g1\<rparr> \<and>
           (\<forall>v. hg_updatedAt g1 = Some v \<longrightarrow> v \<le> t2) \<and>
           save_or_update_group True t2 gdoc groups1 =
             (True, Updated,
              Some (gi, gdoc\<lparr>hg_createdAt := hg_createdAt g1, hg_updatedAt := Some t2\<rparr>),
              map (\<lambda>e. if fst e = gi
                        then (gi, gdoc\<lparr>hg_createdAt := hg_createdAt g1, hg_updatedAt := Some t2\<rparr>)
                        else e) groups1) \<and>
           (find (group_matches gdoc) groups = None \<longrightarrow>
              length (filter (group_matches gdoc)
                (map (\<lambda>e. if fst e = gi
                          then (gi, gdoc\<lparr>hg_createdAt := hg_createdAt g1, hg_updatedAt := Some t2\<rparr>)
                          else e) groups1)) = 1)"
proof (cases "find (group_matches gdoc) groups")
  case None
  let ?i = "fresh_id groups"
  have a1: "groups1 = groups @ [(?i, gdoc)]" and fin: "fin1 = Some (?i, gdoc)"
    using w1 None by (simp_all add: save_or_update_group_def)
  have m: "group_matches gdoc (?i, gdoc)" by (simp add: group_matches_def)
  have f: "find (group_matches gdoc) groups1 = Some (?i, gdoc)"
    unfolding a1 using None m by (rule find_append_new)
  have d1: "distinct (map fst groups1)"
    using dist fresh_id_new [of groups] by (simp add: a1)
  have "?i \<in> fst ` set groups1" by (simp add: a1)
  with d1 have one: "length (filter (\<lambda>e. fst e = ?i) groups1) = 1" by (rule length_filter_key)
  have up: "\<forall>v. hg_updatedAt gdoc = Some v \<longrightarrow> v \<le> t2" using u t by auto
  have cnt: "length (filter (group_matches gdoc)
        (map (\<lambda>e. if fst e = ?i
                  then (?i, gdoc\<lparr>hg_createdAt := hg_createdAt gdoc, hg_updatedAt := Some t2\<rparr>)
                  else e) groups1)) = 1"
    unfolding a1 using None fresh_id_new [of groups]
    by (rule fresh_single_match) (rule group_matches_self)
  from group_second_write [OF d1 f c] f one up fin cnt show ?thesis by auto
next
  case (Some e)
  let ?doc = "gdoc\<lparr>hg_createdAt := Some (case hg_createdAt (snd e) of None \<Rightarrow> t1 | Some cr \<Rightarrow> cr),
                    hg_updatedAt := Some t1\<rparr>"
  have ein: "fst e \<in> fst ` set groups" using Some by (auto simp: find_Some_iff)
  have a1: "groups1 = map (\<lambda>x. if fst x = fst e then (fst e, ?doc) else x) groups"
    and fin: "fin1 = Some (fst e, ?doc)"
    using w1 Some replace_one_as_map [OF dist ein, of ?doc]
    by (simp_all add: save_or_update_group_def Let_def)
  have m: "group_matches gdoc (fst e, ?doc)" by (rule group_matches_self)
  have f: "find (group_matches gdoc) groups1 = Some (fst e, ?doc)"
    unfolding a1 using dist Some m by (rule find_after_replace)
  have d1: "distinct (map fst groups1)" unfolding a1 keys_replace_map by (rule dist)
  have "(fst e, ?doc) \<in> set groups1" using find_in_set [OF f] by simp
  then have "fst (fst e, ?doc) \<in> fst ` set groups1" by (rule imageI)
  then have "fst e \<in> fst ` set groups1" by simp
  with d1 have one: "length (filter (\<lambda>x. fst x = fst e) groups1) = 1" by (rule length_filter_key)
  have c1: "hg_createdAt ?doc \<noteq> None" by simp
  from group_second_write [OF d1 f c1] f one t fin Some show ?thesis by auto
qed

text \<open>
  C6. A collection has distinct ids, the clock does not go back (\<open>t1 \<le> t2\<close>), and the
  input document has a creation time and an update time not after the first write (the
  documents the collector builds are stamped with the current time). After the first
  write of a Group document, or of a Release document, the document is stored under an id
  that exactly one record has (\<open>g1\<close> at \<open>gi\<close>, \<open>a1\<close> at \<open>ai\<close>), equal to the input in all
  fields but the two time stamps. The second write of the same input updates: it changes
  that record and no other, to the input with the creation time of the first write and
  the update time \<open>t2\<close>, which is not before the one of the first write. When no
  record matched the input before the first write, exactly one record matches it after
  the second.
\<close>

theorem upsert_idempotent:
  assumes "distinct (map fst groups)" and "distinct (map fst albums)" and "t1 \<le> t2"
    and "hg_createdAt gdoc \<noteq> None" and "\<forall>v. hg_updatedAt gdoc = Some v \<longrightarrow> v \<le> t1"
    and "ha_createdAt adoc \<noteq> None" and "\<forall>v. ha_updatedAt adoc = Some v \<longrightarrow> v \<le> t1"
    and "save_or_update_group True t1 gdoc groups = (ok1, act1, fin1, groups1)"
    and "save_or_update_album True t1 adoc albums = (aok1, aact1, albums1)"
  shows "(\<exists>gi g1. fin1 = Some (gi, g1) \<and>
           find (group_matches gdoc) groups1 = Some (gi, g1) \<and>
           length (filter (\<lambda>e. fst e = gi) groups1) = 1 \<and>
           g1 = gdoc\<lparr>hg_createdAt := hg_createdAt g1, hg_updatedAt := hg_updatedAt g1\<rparr> \<and>
           (\<forall>v. hg_updatedAt g1 = Some v \<longrightarrow> v \<le> t2) \<and>
           save_or_update_group True t2 gdoc groups1 =
             (True, Updated,
              Some (gi, gdoc\<lparr>hg_createdAt := hg_createdAt g1, hg_updatedAt := Some t2\<rparr>),
              map (\<lambda>e. if fst e = gi
                        then (gi, gdoc\<lparr>hg_createdAt := hg_createdAt g1, hg_updatedAt := Some t2\<rparr>)
                        else e) groups1) \<and>
           (find (group_matches gdoc) groups = None \<longrightarrow>
              length (filter (group_matches gdoc)
                (map (\<lambda>e. if fst e = gi
                          then (gi, gdoc\<lparr>hg_createdAt := hg_createdAt g1, hg_updatedAt := Some t2\<rparr>)
                          else e) groups1)) = 1)) \<and>
         (\<exists>ai a1. find (album_matches adoc) albums1 = Some (ai, a1) \<and>
           length (filter (\<lambda>e. fst e = ai) albums1) = 1 \<and>
           a1 = adoc\<lparr>ha_createdAt := ha_createdAt a1, ha_updatedAt := ha_updatedAt a1\<rparr> \<and>
           (\<forall>v. ha_updatedAt a1 = Some v \<longrightarrow> v \<le> t2) \<and>
           save_or_update_album True t2 adoc albums1 =
             (True, Updated,
              map (\<lambda>e. if fst e = ai
                        then (ai, adoc\<lparr>ha_createdAt := ha_createdAt a1, ha_updatedAt := Some t2\<rparr>)
                        else e) albums1) \<and>
           (find (album_matches adoc) albums = None \<longrightarrow>
              length (filter (album_matches adoc)
                (map (\<lambda>e. if fst e = ai
                          then (ai, adoc\<lparr>ha_createdAt := ha_createdAt a1, ha_updatedAt := Some t2\<rparr>)
                          else e) albums1)) = 1))"
  using group_upsert_twice [OF assms(1,3,4,5,8)] album_upsert_twice [OF assms(2,3,6,7,9)]
  by blast

definition sample_group :: "unit hgroup" where
  "sample_group = \<lparr>hg_name = ''TWICE'', hg_spotifyId = Some ''T1'', hg_payload = (),
                    hg_createdAt = Some 90, hg_updatedAt = Some 90\<rparr>"

definition sample_album :: "int \<Rightarrow> halbum" where
  "sample_album t = \<lparr>ha_name = ''Formula'', ha_artistId = 1, ha_artistName = ''TWICE'',
           ha_spotifyId = Some ''A1'', ha_releaseDate = None, ha_totalTracks = 8,
           ha_albumType = ''album'', ha_discoverySource = ''Spotify'', ha_lastScraped = t,
           ha_createdAt = Some t, ha_updatedAt = Some t\<rparr>"

theorem upsert_idempotent_witness:
  "distinct (map fst ([] :: (nat \<times> unit hgroup) list)) \<and>
   distinct (map fst [(7::nat, sample_album 50)]) \<and>
   (100::int) \<le> 200 \<and>
   hg_createdAt sample_group \<noteq> None \<and> ha_createdAt (sample_album 95) \<noteq> None \<and>
   save_or_update_group True 100 sample_group [] =
     (True, Created, Some (1, sample_group), [(1, sample_group)]) \<and>
   save_or_update_album True 100 (sample_album 95) [(7, sample_album 50)] =
     (True, Updated,
      [(7, (sample_album 95)\<lparr>ha_createdAt := Some 50, ha_updatedAt := Some 100\<rparr>)]) \<and>
   save_or_update_group True 200 sample_group [(1, sample_group)] =
     (True, Updated, Some (1, sample_group\<lparr>hg_updatedAt := Some 200\<rparr>),
      [(1, sample_group\<lparr>hg_updatedAt := Some 200\<rparr>)]) \<and>
   save_or_update_album True 200 (sample_album 95)
       [(7, (sample_album 95)\<lparr>ha_createdAt := Some 50, ha_updatedAt := Some 100\<rparr>)] =
     (True, Updated,
      [(7, (sample_album 95)\<lparr>ha_createdAt := Some 50, ha_updatedAt := Some 200\<rparr>)])"
proof -
  let ?A1 = "[(7::nat, (sample_album 95)\<lparr>ha_createdAt := Some 50, ha_updatedAt := Some 100\<rparr>)]"
  have h1: "distinct (map fst ([] :: (nat \<times> unit hgroup) list))" by simp
  have h2: "distinct (map fst [(7::nat, sample_album 50)])" by simp
  have h3: "(100::int) \<le> 200" by simp
  have h4: "hg_createdAt sample_group \<noteq> None" by (simp add: sample_group_def)
  have h5: "\<forall>v. hg_updatedAt sample_group = Some v \<longrightarrow> v \<le> 100" by (simp add: sample_group_def)
  have h6: "ha_createdAt (sample_album 95) \<noteq> None" by (simp add: sample_album_def)
  have h7: "\<forall>v. ha_updatedAt (sample_album 95) = Some v \<longrightarrow> v \<le> 100" by (simp add: sample_album_def)
  have h8: "save_or_update_group True 100 sample_group [] =
     (True, Created, Some (1, sample_group), [(1, sample_group)])"
    by (simp add: save_or_update_group_def fresh_id_def)
  have h9: "save_or_update_album True 100 (sample_album 95) [(7, sample_album 50)] =
     (True, Updated, ?A1)"
    by (simp add: save_or_update_album_def album_matches_def replace_one_def sample_album_def)
  from upsert_idempotent [OF h1 h2 h3 h4 h5 h6 h7 h8 h9]
  obtain gi g1 ai a1 where
    g: "Some (1, sample_group) = Some (gi, g1)"
       "save_or_update_group True 200 sample_group [(1, sample_group)] =
             (True, Updated,
              Some (gi, sample_group\<lparr>hg_createdAt := hg_createdAt g1, hg_updatedAt := Some 200\<rparr>),
              map (\<lambda>e. if fst e = gi
                        then (gi, sample_group\<lparr>hg_createdAt := hg_createdAt g1, hg_updatedAt := Some 200\<rparr>)
                        else e) [(1, sample_group)])"
    and a: "find (album_matches (sample_album 95)) ?A1 = Some (ai, a1)"
       "save_or_update_album True 200 (sample_album 95) ?A1 =
             (True, Updated,
              map (\<lambda>e. if fst e = ai
                        then (ai, (sample_album 95)\<lparr>ha_createdAt := ha_createdAt a1, ha_updatedAt := Some 200\<rparr>)
                        else e) ?A1)"
    by blast
  from g(1) have gi: "gi = 1" "g1 = sample_group" by simp_all
  from a(1) have ai: "ai = 7" "a1 = (sample_album 95)\<lparr>ha_createdAt := Some 50, ha_updatedAt := Some 100\<rparr>"
    by (simp_all add: album_matches_def)
  have g2: "save_or_update_group True 200 sample_group [(1, sample_group)] =
     (True, Updated, Some (1, sample_group\<lparr>hg_updatedAt := Some 200\<rparr>),
      [(1, sample_group\<lparr>hg_updatedAt := Some 200\<rparr>)])"
    using g(2) unfolding gi by (simp add: sample_group_def)
  have a2: "save_or_update_album True 200 (sample_album 95) ?A1 =
     (True, Updated, [(7, (sample_album 95)\<lparr>ha_createdAt := Some 50, ha_updatedAt := Some 200\<rparr>)])"
    using a(2) unfolding ai by simp
  from h1 h2 h3 h4 h6 h8 h9 g2 a2 show ?thesis by blast
qed

subsection \<open>Name similarity in the revalidation pass\<close>

lemma similarity_twice_same: "calculate_name_similarity ''TWICE'' ''Twice'' = 1"
  by code_simp

lemma similarity_twice_label: "calculate_name_similarity ''TWICE'' ''Twice Entertainment'' = 4 / 5"
  by code_simp

lemma similarity_twice_other: "calculate_name_similarity ''TWICE'' ''BLACKPINK'' = 1 / 7"
  by code_simp

lemma kpop_genre_sample: "has_kpop_genre [''k-pop'']"
  by code_simp

text \<open>
  C2 (as amended). The similarity of \<open>TWICE\<close> and \<open>Twice\<close> is 1, at least 0.8. The
  similarity of \<open>TWICE\<close> and \<open>Twice Entertainment\<close> is 0.8: the edit-based ratio is 5/12,
  but one normalised name contains the other, so the floor of 0.8 applies. This is not
  below the threshold 0.6, and the revalidation of a K-pop artist with these names keeps
  the group. For names whose similarity is below 0.6, the revalidation of a K-pop artist
  deletes the group and its albums, with the reason \<open>Nom incorrect\<close> followed by the
  provider's name.
\<close>

theorem name_similarity_revalidation:
  "calculate_name_similarity ''TWICE'' ''Twice'' = 1 \<and>
   calculate_name_similarity ''TWICE'' ''Twice Entertainment'' = 4 / 5 \<and>
   ratio ''twice'' ''twice entertainment'' = 5 / 12 \<and>
   check_group ''TWICE'' True (ArtistAnswer 200 Absent ''Twice Entertainment'' [''k-pop'']) = Checked \<and>
   (has_kpop_genre gs \<and> calculate_name_similarity (hg_name (snd grp)) n < 0.6 \<longrightarrow>
      check_group (hg_name (snd grp)) True (ArtistAnswer 200 hdr n gs) = Deleted (''Nom incorrect: '' @ n) \<and>
      cleanup_loop (\<lambda>i. (True, ArtistAnswer 200 hdr n gs)) [grp] (cnt, groups, albums) =
        (cnt\<lparr>invalid_count := invalid_count cnt + 1\<rparr>,
         filter (\<lambda>g. fst g \<noteq> fst grp) groups,
         filter (\<lambda>d. ha_artistId (snd d) \<noteq> fst grp) albums))"
proof -
  have "ratio ''twice'' ''twice entertainment'' = 5 / 12" by code_simp
  moreover have "check_group ''TWICE'' True
      (ArtistAnswer 200 Absent ''Twice Entertainment'' [''k-pop'']) = Checked"
    by (simp add: check_group_def kpop_genre_sample similarity_twice_label)
  moreover have "has_kpop_genre gs \<and> calculate_name_similarity (hg_name (snd grp)) n < 0.6 \<longrightarrow>
      check_group (hg_name (snd grp)) True (ArtistAnswer 200 hdr n gs) = Deleted (''Nom incorrect: '' @ n) \<and>
      cleanup_loop (\<lambda>i. (True, ArtistAnswer 200 hdr n gs)) [grp] (cnt, groups, albums) =
        (cnt\<lparr>invalid_count := invalid_count cnt + 1\<rparr>,
         filter (\<lambda>g. fst g \<noteq> fst grp) groups,
         filter (\<lambda>d. ha_artistId (snd d) \<noteq> fst grp) albums)"
    by (simp add: check_group_def delete_group_and_albums_def)
  ultimately show ?thesis using similarity_twice_same similarity_twice_label by blast
qed

theorem name_similarity_revalidation_witness:
  "has_kpop_genre [''k-pop''] \<and>
   calculate_name_similarity
     (hg_name (snd (3::nat, \<lparr>hg_name = ''TWICE'', hg_spotifyId = Some ''T1'', hg_payload = (),
                             hg_createdAt = None, hg_updatedAt = None\<rparr>))) ''BLACKPINK'' < 0.6 \<and>
   check_group ''TWICE'' True (ArtistAnswer 200 Absent ''BLACKPINK'' [''k-pop''])
     = Deleted ''Nom incorrect: BLACKPINK''"
proof -
  let ?grp = "(3::nat, \<lparr>hg_name = ''TWICE'', hg_spotifyId = Some ''T1'', hg_payload = (),
                        hg_createdAt = None, hg_updatedAt = None\<rparr>)"
  have h1: "has_kpop_genre [''k-pop'']" by (rule kpop_genre_sample)
  have h2: "calculate_name_similarity (hg_name (snd ?grp)) ''BLACKPINK'' < 0.6"
    by (simp add: similarity_twice_other)
  from name_similarity_revalidation [of "[''k-pop'']" ?grp "''BLACKPINK''" Absent] h1 h2
  have "check_group (hg_name (snd ?grp)) True (ArtistAnswer 200 Absent ''BLACKPINK'' [''k-pop''])
          = Deleted (''Nom incorrect: '' @ ''BLACKPINK'')"
    by blast
  then have "check_group ''TWICE'' True (ArtistAnswer 200 Absent ''BLACKPINK'' [''k-pop''])
          = Deleted ''Nom incorrect: BLACKPINK''"
    by simp
  with h1 h2 show ?thesis by blast
qed

text \<open>
  The claim as stated fails: the similarity of \<open>TWICE\<close> and \<open>Twice Entertainment\<close> is not
  below 0.6, and the group is counted as checked.
\<close>

theorem twice_entertainment_not_a_mismatch:
  "\<not> calculate_name_similarity ''TWICE'' ''Twice Entertainment'' < 0.6 \<and>
   check_group ''TWICE'' True (ArtistAnswer 200 Absent ''Twice Entertainment'' [''k-pop'']) = Checked"
  by (simp add: check_group_def kpop_genre_sample similarity_twice_label)

subsection \<open>The report of a pipeline run\<close>

text \<open>
  An album write adds one document exactly when it reports \<open>Created\<close>; the loops of the
  two phases count every unit, and leave the counters of the other phase alone.
\<close>

lemma length_update_present: "i \<in> fst ` set coll \<Longrightarrow> length (AList.update i v coll) = length coll"
  by (induction coll) auto

lemma length_replace_one: "length (replace_one i v coll) = length coll"
  by (simp add: replace_one_def length_update_present)

lemma save_or_update_album_length:
  "save_or_update_album db_ok now document coll = (ok, act, coll') \<Longrightarrow>
   length coll' = length coll + (if ok \<and> act = Created then 1 else 0) \<and>
   (ok \<longrightarrow> act = Created \<or> act = Updated)"
  by (auto simp: save_or_update_album_def Let_def length_replace_one split: if_splits option.splits)

lemma save_albums_counts:
  "save_albums strptime now gd albums db (stats, coll) = (stats', coll') \<Longrightarrow>
   length coll' + albums_created stats = length coll + albums_created stats'"
proof (induction albums arbitrary: db stats coll)
  case Nil
  then show ?case by simp
next
  case (Cons a as)
  let ?doc = "create_album_document strptime now a gd"
  obtain ok act coll1 where s: "save_or_update_album (case db of [] \<Rightarrow> True | b # bs \<Rightarrow> b) now ?doc coll
          = (ok, act, coll1)"
    by (cases "save_or_update_album (case db of [] \<Rightarrow> True | b # bs \<Rightarrow> b) now ?doc coll") auto
  let ?stats1 = "(if ok then
               (if act = Created then stats\<lparr>albums_created := albums_created stats + 1\<rparr>
                else if act = Updated then stats\<lparr>albums_updated := albums_updated stats + 1\<rparr>
                else stats)
             else stats\<lparr>albums_failed := albums_failed stats + 1\<rparr>)"
  have r: "save_albums strptime now gd as (tl db) (?stats1, coll1) = (stats', coll')"
    using Cons.prems s by simp
  from Cons.IH [OF r] save_or_update_album_length [OF s]
  show ?case by (auto split: if_splits)
qed

lemma process_existing_counts:
  assumes "process_existing_group_albums strptime now env g coll = Some (st, coll')"
  shows "length coll' = length coll + albums_created st"
proof -
  from assms obtain albums where
    "save_albums strptime now (fst g, hg_name (snd g)) albums (unit_db env)
       (\<lparr>albums_discovered = length albums, albums_created = 0, albums_updated = 0,
         albums_failed = 0\<rparr>, coll) = (st, coll')"
    by (auto simp: process_existing_harvested split: option.splits)
  from save_albums_counts [OF this] show ?thesis by simp
qed

text \<open>
  A unit of phase 2 starts a listing by id when the token is there and the group has a
  provider id; it returns exactly when that listing does.
\<close>

definition listing_started :: "unit_env \<Rightarrow> 'p hgroup \<Rightarrow> bool" where
  "listing_started env g =
     (unit_token_ok env \<and> (case hg_spotifyId g of None \<Rightarrow> False | Some i \<Rightarrow> i \<noteq> []))"

lemma harvested_returns:
  assumes "listing_started env g \<longrightarrow> (\<exists>m. \<not> asks_again (unit_listing env m))"
  shows "\<exists>albums. harvested env g = Some albums"
proof (cases "listing_started env g")
  case False
  then show ?thesis
    by (auto simp: listing_started_def harvested_def search_albums_by_artist_id_def
        split: option.splits)
next
  case True
  with assms obtain m where "\<not> asks_again (unit_listing env (0 + m))" by auto
  from id_listing_loop_returns [of "unit_listing env" 0 m "the (hg_spotifyId g)" "[]", OF this]
  obtain r where
    "id_listing_loop (the (hg_spotifyId g)) (unit_listing env) 0 [] = Some r" by blast
  then show ?thesis using True
    by (auto simp: listing_started_def harvested_def search_albums_by_artist_id_def
        split: option.splits)
qed

lemma harvested_never:
  assumes "listing_started env g" and "\<forall>k. asks_again (unit_listing env k)"
  shows "harvested env g = None"
  using assms id_listing_loop_forever [of "unit_listing env"]
  by (auto simp: listing_started_def harvested_def search_albums_by_artist_id_def
      split: option.splits)

lemma process_existing_returns:
  "listing_started env (snd g) \<longrightarrow> (\<exists>m. \<not> asks_again (unit_listing env m)) \<Longrightarrow>
   \<exists>st coll'. process_existing_group_albums strptime now env g coll = Some (st, coll')"
  using harvested_returns [of env "snd g"]
  by (auto simp: process_existing_harvested split: option.splits prod.splits)

lemma process_existing_never:
  "listing_started env (snd g) \<Longrightarrow> \<forall>k. asks_again (unit_listing env k) \<Longrightarrow>
   process_existing_group_albums strptime now env g coll = None"
  using harvested_never [of env "snd g"] by (simp add: process_existing_harvested)

definition phase_1_fields :: "global_stats \<Rightarrow> nat \<times> nat \<times> nat \<times> nat \<times> nat \<times> nat \<times> nat" where
  "phase_1_fields s = (phase_1_discovered s, phase_2_groups_processed s, phase_2_albums_created s,
     phase_2_albums_updated s, total_albums_created s, total_albums_updated s, cleaned_count s)"

lemma phase_1_counts:
  "phase_1_processed (phase_1 artists stats) = phase_1_processed stats + length artists \<and>
   phase_1_fields (phase_1 artists stats) = phase_1_fields stats"
  by (induction artists arbitrary: stats) (auto simp: Let_def phase_1_fields_def)

definition phase_2_fields :: "global_stats \<Rightarrow> nat \<times> nat \<times> nat \<times> nat \<times> nat" where
  "phase_2_fields s = (phase_1_discovered s, phase_1_processed s, phase_1_groups_created s,
     phase_1_albums_created s, cleaned_count s)"

lemma phase_2_counts:
  "phase_2 strptime now us gs (stats, coll) = Some (stats', coll') \<Longrightarrow>
   phase_2_groups_processed stats' = phase_2_groups_processed stats + length gs \<and>
   length coll' + phase_2_albums_created stats = length coll + phase_2_albums_created stats' \<and>
   phase_2_fields stats' = phase_2_fields stats"
proof (induction gs arbitrary: stats coll)
  case Nil
  then show ?case by simp
next
  case (Cons g gs)
  from Cons.prems obtain st coll1 where
    p: "process_existing_group_albums strptime now (us (fst g)) g coll = Some (st, coll1)"
    by (auto split: option.splits)
  let ?stats1 = "stats\<lparr>phase_2_groups_processed := phase_2_groups_processed stats + 1,
                   phase_2_albums_created := phase_2_albums_created stats + albums_created st,
                   phase_2_albums_updated := phase_2_albums_updated stats + albums_updated st\<rparr>"
  have r: "phase_2 strptime now us gs (?stats1, coll1) = Some (stats', coll')"
    using Cons.prems p by simp
  from Cons.IH [OF r] process_existing_counts [OF p]
  show ?case by (simp add: phase_2_fields_def)
qed

lemma phase_2_returns:
  "\<forall>g \<in> set gs. listing_started (us (fst g)) (snd g) \<longrightarrow>
                   (\<exists>m. \<not> asks_again (unit_listing (us (fst g)) m)) \<Longrightarrow>
   \<exists>stats' coll'. phase_2 strptime now us gs (stats, coll) = Some (stats', coll')"
proof (induction gs arbitrary: stats coll)
  case Nil
  then show ?case by simp
next
  case (Cons g gs)
  from Cons.prems have "listing_started (us (fst g)) (snd g) \<longrightarrow>
                   (\<exists>m. \<not> asks_again (unit_listing (us (fst g)) m))" by simp
  from process_existing_returns [OF this, of strptime now coll] obtain st coll1 where
    p: "process_existing_group_albums strptime now (us (fst g)) g coll = Some (st, coll1)" by blast
  from Cons.prems have "\<forall>g \<in> set gs. listing_started (us (fst g)) (snd g) \<longrightarrow>
                   (\<exists>m. \<not> asks_again (unit_listing (us (fst g)) m))" by simp
  from Cons.IH [OF this] p show ?case by simp
qed

lemma phase_2_never:
  "g \<in> set gs \<Longrightarrow> listing_started (us (fst g)) (snd g) \<Longrightarrow>
   \<forall>k. asks_again (unit_listing (us (fst g)) k) \<Longrightarrow>
   phase_2 strptime now us gs (stats, coll) = None"
proof (induction gs arbitrary: stats coll)
  case Nil
  then show ?case by simp
next
  case (Cons h gs)
  show ?case
  proof (cases "process_existing_group_albums strptime now (us (fst h)) h coll")
    case None
    then show ?thesis by simp
  next
    case (Some r)
    then have "h \<noteq> g"
      using process_existing_never [OF Cons.prems(2,3), of strptime now coll] by auto
    with Cons.prems(1) have "g \<in> set gs" by simp
    from Cons.IH [OF this Cons.prems(2,3)] Some show ?thesis by (auto split: prod.splits)
  qed
qed

text \<open>
  When a listing by id never ends (the provider keeps answering with a rate limit of at
  most 60 seconds, or with full pages), the run does not return.
\<close>

lemma run_never_returns:
  assumes "groups_ok env" and "g \<in> set groups"
    and "listing_started (units env (fst g)) (snd g)"
    and "\<forall>k. asks_again (unit_listing (units env (fst g)) k)"
  shows "run_hybrid_collection strptime now env groups coll = None"
  using assms phase_2_never [of g groups "units env" strptime now]
  by (simp add: run_hybrid_collection_def get_all_existing_groups_def Let_def split: prod.splits)

text \<open>
  C9 (as amended). A pipeline run in which every listing by id that is started comes to an
  end returns its report, whatever else happens in the units: the number of processed
  artists of phase 1 is the number of discovered artists, the number of processed groups
  of phase 2 is the number of groups read from the store (none when that query fails), the
  totals are the sums of the phases, the cleaned count is the one of the preparation, and
  the number of album documents grows by the number of albums phase 2 reports as created.
  The report has counts of created and updated albums, and none of quarantined or failed
  units.
\<close>

theorem run_hybrid_collection_report:
  assumes "\<forall>g \<in> set groups. listing_started (units env (fst g)) (snd g) \<longrightarrow>
             (\<exists>m. \<not> asks_again (unit_listing (units env (fst g)) m))"
  shows "\<exists>r coll'.
         run_hybrid_collection strptime now env groups coll = Some (r, coll') \<and>
         phase_1_processed r = phase_1_discovered r \<and>
         phase_1_discovered r =
           length (fst (discover_new_kpop_artists
             (fst (load_existing_groups_cache (cache_ok env) groups (prior_caches env)))
             (discovery env)
             (snd (load_existing_groups_cache (cache_ok env) groups (prior_caches env))))) \<and>
         phase_2_groups_processed r = (if groups_ok env then length groups else 0) \<and>
         total_albums_created r = phase_1_albums_created r + phase_2_albums_created r \<and>
         total_albums_updated r = phase_2_albums_updated r \<and>
         cleaned_count r = fst (cleanup_old_data (cleanup_ok env) (unset_modified env) coll) \<and>
         length coll' =
           length (snd (cleanup_old_data (cleanup_ok env) (unset_modified env) coll)) +
           phase_2_albums_created r"
proof -
  obtain nms ids where c: "load_existing_groups_cache (cache_ok env) groups (prior_caches env) = (nms, ids)"
    by (cases "load_existing_groups_cache (cache_ok env) groups (prior_caches env)") auto
  obtain cleaned coll1 where cl: "cleanup_old_data (cleanup_ok env) (unset_modified env) coll = (cleaned, coll1)"
    by (cases "cleanup_old_data (cleanup_ok env) (unset_modified env) coll") auto
  obtain found ids' where d: "discover_new_kpop_artists nms (discovery env) ids = (found, ids')"
    by (cases "discover_new_kpop_artists nms (discovery env) ids") auto
  let ?stats0 = "\<lparr>phase_1_discovered = length found, phase_1_processed = 0,
                    phase_1_groups_created = 0, phase_1_albums_created = 0,
                    phase_2_groups_processed = 0, phase_2_albums_created = 0,
                    phase_2_albums_updated = 0, total_albums_created = 0,
                    total_albums_updated = 0, cleaned_count = cleaned\<rparr>"
  let ?stats1 = "phase_1 found ?stats0"
  let ?gs = "get_all_existing_groups (groups_ok env) groups"
  have "\<forall>g \<in> set ?gs. listing_started (units env (fst g)) (snd g) \<longrightarrow>
             (\<exists>m. \<not> asks_again (unit_listing (units env (fst g)) m))"
    using assms by (simp add: get_all_existing_groups_def)
  from phase_2_returns [OF this, of strptime now ?stats1 coll1]
  obtain stats2 coll2 where p2: "phase_2 strptime now (units env) ?gs (?stats1, coll1) = Some (stats2, coll2)"
    by blast
  let ?r = "stats2\<lparr>total_albums_created := phase_1_albums_created stats2 + phase_2_albums_created stats2,
                      total_albums_updated := phase_2_albums_updated stats2\<rparr>"
  have run: "run_hybrid_collection strptime now env groups coll = Some (?r, coll2)"
    using c cl d p2 by (simp add: run_hybrid_collection_def Let_def)
  from phase_1_counts [of found ?stats0]
  have s1: "phase_1_processed ?stats1 = length found" "phase_1_discovered ?stats1 = length found"
    "phase_2_groups_processed ?stats1 = 0" "phase_2_albums_created ?stats1 = 0"
    "cleaned_count ?stats1 = cleaned"
    by (simp_all add: phase_1_fields_def)
  from phase_2_counts [OF p2] s1
  have s2: "phase_2_groups_processed stats2 = length ?gs"
    "length coll2 = length coll1 + phase_2_albums_created stats2"
    "phase_1_discovered stats2 = length found" "phase_1_processed stats2 = length found"
    "cleaned_count stats2 = cleaned"
    by (simp_all add: phase_2_fields_def)
  have "phase_1_processed ?r = phase_1_discovered ?r \<and>
         phase_1_discovered ?r =
           length (fst (discover_new_kpop_artists
             (fst (load_existing_groups_cache (cache_ok env) groups (prior_caches env)))
             (discovery env)
             (snd (load_existing_groups_cache (cache_ok env) groups (prior_caches env))))) \<and>
         phase_2_groups_processed ?r = (if groups_ok env then length groups else 0) \<and>
         total_albums_created ?r = phase_1_albums_created ?r + phase_2_albums_created ?r \<and>
         total_albums_updated ?r = phase_2_albums_updated ?r \<and>
         cleaned_count ?r = fst (cleanup_old_data (cleanup_ok env) (unset_modified env) coll) \<and>
         length coll2 =
           length (snd (cleanup_old_data (cleanup_ok env) (unset_modified env) coll)) +
           phase_2_albums_created ?r"
    using s2 by (simp add: c cl d get_all_existing_groups_def)
  with run show ?thesis by blast
qed

text \<open>
  A run over two groups. The listing of the first group is first answered with a rate limit
  of 5 seconds and then with \<open>answer\<close>; \<open>db\<close> tells which of its writes fail. The listing of
  the second group raises.
\<close>

definition sample_groups :: "(nat \<times> unit hgroup) list" where
  "sample_groups =
     [(1, \<lparr>hg_name = ''TWICE'', hg_spotifyId = Some ''T'', hg_payload = (), hg_createdAt = Some 10,
            hg_updatedAt = Some 10\<rparr>),
      (2, \<lparr>hg_name = ''ITZY'', hg_spotifyId = Some ''I'', hg_payload = (), hg_createdAt = Some 10,
            hg_updatedAt = Some 10\<rparr>)]"

definition sample_listing :: "page \<Rightarrow> nat \<Rightarrow> page" where
  "sample_listing answer n = (if n = 0 then Page 429 (Numeric 5) [] 0 else answer)"

definition sample_env :: "bool list \<Rightarrow> (nat \<Rightarrow> page) \<Rightarrow> run_env" where
  "sample_env db listing =
     \<lparr>cache_ok = True, prior_caches = ({}, {}), cleanup_ok = True, unset_modified = 0,
      discovery = (\<lambda>q. if q = ''kpop'' then (True, [ArtistPage 200 [kartist ''A1'' ''ATEEZ'' 80]])
                       else (True, [])),
      groups_ok = True,
      units = (\<lambda>i. if i = 1
                    then \<lparr>unit_token_ok = True, unit_pages = [], unit_listing = listing, unit_db = db\<rparr>
                    else \<lparr>unit_token_ok = True, unit_pages = [], unit_listing = (\<lambda>n. PageFailed),
                           unit_db = []\<rparr>)\<rparr>"

definition one_album :: page where
  "one_album = Page 200 Absent [rel ''A1'' ''Formula'' (Some ''2021-11-12'') 8 ''T''] 1"

definition no_album :: page where
  "no_album = Page 200 Absent [] 0"

lemma run_sample:
  "run_hybrid_collection (\<lambda>s. None) 100 (sample_env [False] (sample_listing one_album)) sample_groups []
   = Some (\<lparr>phase_1_discovered = 1, phase_1_processed = 1, phase_1_groups_created = 0,
      phase_1_albums_created = 0, phase_2_groups_processed = 2, phase_2_albums_created = 0,
      phase_2_albums_updated = 0, total_albums_created = 0, total_albums_updated = 0,
      cleaned_count = 0\<rparr>, [])"
  by (simp add: run_hybrid_collection_def sample_env_def sample_groups_def sample_listing_def
      one_album_def
      load_existing_groups_cache_def cleanup_old_data_def get_all_existing_groups_def
      discover_new_kpop_artists_def search_queries_def search_kpop_artists_discovery_def
      search_window_def page_limit_def is_valid_kpop_spotify_artist_def has_korean_genre_def
      label_keywords_def suspect_pattern_def suspect_words_def is_digit_def kartist_def
      add_unique_def sort_reverse_def lower_def lower_char_def strip_def is_space_def
      process_artist_complete_def
      process_existing_group_albums_def search_albums_by_artist_id_def id_listing_loop.simps
      listing_iteration_def
      is_primary_artist_album_def is_valid_release_simple_def rel_def karaoke_version_at_def
      soundtrack_pt_at_def original_soundtrack_pt_at_def create_album_document_def
      parse_release_date_def date_key_def final_album_type_def save_or_update_album_def)

lemma run_sample2:
  "run_hybrid_collection (\<lambda>s. None) 100 (sample_env [] (sample_listing no_album)) sample_groups []
   = Some (\<lparr>phase_1_discovered = 1, phase_1_processed = 1, phase_1_groups_created = 0,
      phase_1_albums_created = 0, phase_2_groups_processed = 2, phase_2_albums_created = 0,
      phase_2_albums_updated = 0, total_albums_created = 0, total_albums_updated = 0,
      cleaned_count = 0\<rparr>, [])"
  by (simp add: run_hybrid_collection_def sample_env_def sample_groups_def sample_listing_def
      no_album_def
      load_existing_groups_cache_def cleanup_old_data_def get_all_existing_groups_def
      discover_new_kpop_artists_def search_queries_def search_kpop_artists_discovery_def
      search_window_def page_limit_def is_valid_kpop_spotify_artist_def has_korean_genre_def
      label_keywords_def suspect_pattern_def suspect_words_def is_digit_def kartist_def
      add_unique_def sort_reverse_def lower_def lower_char_def strip_def is_space_def
      process_artist_complete_def
      process_existing_group_albums_def search_albums_by_artist_id_def id_listing_loop.simps
      listing_iteration_def)

lemma failed_sample:
  "map_option (\<lambda>r. albums_failed (fst r))
     (process_existing_group_albums (\<lambda>s. None) 100
        (units (sample_env [False] (sample_listing one_album)) 1) (hd sample_groups) []) = Some 1 \<and>
   map_option (\<lambda>r. albums_failed (fst r))
     (process_existing_group_albums (\<lambda>s. None) 100
        (units (sample_env [] (sample_listing no_album)) 1) (hd sample_groups) []) = Some 0"
  by (simp add: sample_groups_def sample_env_def sample_listing_def one_album_def no_album_def
      process_existing_group_albums_def search_albums_by_artist_id_def id_listing_loop.simps
      listing_iteration_def page_limit_def
      is_primary_artist_album_def is_valid_release_simple_def rel_def karaoke_version_at_def
      soundtrack_pt_at_def original_soundtrack_pt_at_def create_album_document_def
      parse_release_date_def date_key_def final_album_type_def save_or_update_album_def
      lower_def lower_char_def strip_def is_space_def)

theorem run_hybrid_collection_report_witness:
  "asks_again (unit_listing (units (sample_env [False] (sample_listing one_album)) 1) 0) \<and>
   \<not> asks_again (unit_listing (units (sample_env [False] (sample_listing one_album)) 1) 1) \<and>
   \<not> asks_again (unit_listing (units (sample_env [False] (sample_listing one_album)) 2) 0) \<and>
   run_hybrid_collection (\<lambda>s. None) 100 (sample_env [False] (sample_listing one_album)) sample_groups []
     \<noteq> None \<and>
   phase_1_processed (fst (the (run_hybrid_collection (\<lambda>s. None) 100
       (sample_env [False] (sample_listing one_album)) sample_groups [])))
     = phase_1_discovered (fst (the (run_hybrid_collection (\<lambda>s. None) 100
       (sample_env [False] (sample_listing one_album)) sample_groups []))) \<and>
   phase_2_groups_processed (fst (the (run_hybrid_collection (\<lambda>s. None) 100
       (sample_env [False] (sample_listing one_album)) sample_groups []))) = 2 \<and>
   map_option (\<lambda>r. albums_failed (fst r))
     (process_existing_group_albums (\<lambda>s. None) 100
        (units (sample_env [False] (sample_listing one_album)) 1) (hd sample_groups) []) = Some 1"
proof -
  let ?env = "sample_env [False] (sample_listing one_album)"
  let ?run = "run_hybrid_collection (\<lambda>s. None) 100 ?env sample_groups []"
  have a0: "asks_again (unit_listing (units ?env 1) 0)"
    by (simp add: sample_env_def sample_listing_def asks_again_def)
  have a1: "\<not> asks_again (unit_listing (units ?env 1) 1)"
    by (simp add: sample_env_def sample_listing_def one_album_def asks_again_def page_limit_def)
  have a2: "\<not> asks_again (unit_listing (units ?env 2) 0)"
    by (simp add: sample_env_def asks_again_def)
  have h: "\<forall>g \<in> set sample_groups. listing_started (units ?env (fst g)) (snd g) \<longrightarrow>
             (\<exists>m. \<not> asks_again (unit_listing (units ?env (fst g)) m))"
    using a1 a2 by (auto simp: sample_groups_def)
  have g: "groups_ok ?env" "length sample_groups = 2"
    by (simp_all add: sample_env_def sample_groups_def)
  from run_hybrid_collection_report [OF h, of "\<lambda>s. None" 100 "[]"] g
  obtain r coll' where "?run = Some (r, coll')" "phase_1_processed r = phase_1_discovered r"
    "phase_2_groups_processed r = 2"
    by auto
  then have "?run \<noteq> None" "phase_1_processed (fst (the ?run)) = phase_1_discovered (fst (the ?run))"
    "phase_2_groups_processed (fst (the ?run)) = 2"
    by simp_all
  with a0 a1 a2 failed_sample show ?thesis by blast
qed

text \<open>
  The claim as stated fails: the report does not tell a run with a failed unit from a run
  without one. The two runs above differ by a failed album write, and their reports are
  equal.
\<close>

theorem report_does_not_show_failures:
  "map_option fst (run_hybrid_collection (\<lambda>s. None) 100
       (sample_env [False] (sample_listing one_album)) sample_groups [])
   = map_option fst (run_hybrid_collection (\<lambda>s. None) 100
       (sample_env [] (sample_listing no_album)) sample_groups []) \<and>
   run_hybrid_collection (\<lambda>s. None) 100
       (sample_env [False] (sample_listing one_album)) sample_groups [] \<noteq> None \<and>
   map_option (\<lambda>r. albums_failed (fst r))
     (process_existing_group_albums (\<lambda>s. None) 100
        (units (sample_env [False] (sample_listing one_album)) 1) (hd sample_groups) []) = Some 1 \<and>
   map_option (\<lambda>r. albums_failed (fst r))
     (process_existing_group_albums (\<lambda>s. None) 100
        (units (sample_env [] (sample_listing no_album)) 1) (hd sample_groups) []) = Some 0"
  using failed_sample by (simp add: run_sample run_sample2)

text \<open>
  A provider that answers every request of a listing with a rate limit of 30 seconds: the
  loop sleeps and asks again without end, and the run never returns.
\<close>

definition always_rate_limited :: "nat \<Rightarrow> page" where
  "always_rate_limited n = Page 429 (Numeric 30) [] 0"

lemma run_never_returns_sample:
  "run_hybrid_collection (\<lambda>s. None) 100 (sample_env [] always_rate_limited) sample_groups [] = None"
proof -
  let ?env = "sample_env [] always_rate_limited"
  have "groups_ok ?env" by (simp add: sample_env_def)
  moreover have "hd sample_groups \<in> set sample_groups" by (simp add: sample_groups_def)
  moreover have "listing_started (units ?env (fst (hd sample_groups))) (snd (hd sample_groups))"
    by (simp add: sample_env_def sample_groups_def listing_started_def)
  moreover have "\<forall>k. asks_again (unit_listing (units ?env (fst (hd sample_groups))) k)"
    by (simp add: sample_env_def sample_groups_def always_rate_limited_def asks_again_def)
  ultimately show ?thesis by (rule run_never_returns)
qed

text \<open>
  A group whose \<open>spotifyId\<close> is \<open>null\<close> is selected by the revalidation pass; when the
  provider answers its lookup with 404, the group is deleted.
\<close>

lemma null_id_group_is_checked:
  "snd (snd (cleanup_invalid_spotify_artists True (\<lambda>i. True)
       (\<lambda>i. (True, ArtistAnswer 404 Absent [] []))
       ([(1, \<lparr>hg_name = ''TWICE'', hg_spotifyId = None, hg_payload = (), hg_createdAt = None,
               hg_updatedAt = None\<rparr>)], [])))
   = ([], [])"
  by (simp add: cleanup_invalid_spotify_artists_def groups_with_spotify_def check_group_def
      delete_group_and_albums_def)

text \<open>
  The revalidation pass of the hybrid collector keeps its three counters during the loop
  and then ends without a \<open>return\<close> statement: whenever the query of the groups succeeds,
  its value is \<open>None\<close>.
\<close>

lemma cleanup_returns_none: "fst (cleanup_invalid_spotify_artists True has_key env colls) = None"
  by (simp add: cleanup_invalid_spotify_artists_def)

end
